theory Spec2Isabelle
  imports Main
begin

section \<open>Strings, numbers and JavaScript values\<close>

text \<open>
  JavaScript strings are modelled as \<^typ>\<open>string\<close> (lists of bytes, UTF-8 for the
  few non-ASCII characters of the log messages). The only case conversions of the
  program compare against or produce ASCII text (\<open>.mp3\<close>, the level names), and no
  non-ASCII character lower-cases to one of \<open>m\<close>, \<open>p\<close>, \<open>3\<close> or \<open>.\<close>, so ASCII case
  mapping decides the same comparisons.
\<close>

definition lower_char :: "char \<Rightarrow> char" where
  "lower_char c =
     (case map_of (zip ''ABCDEFGHIJKLMNOPQRSTUVWXYZ'' ''abcdefghijklmnopqrstuvwxyz'') c of
        None \<Rightarrow> c | Some d \<Rightarrow> d)"

definition upper_char :: "char \<Rightarrow> char" where
  "upper_char c =
     (case map_of (zip ''abcdefghijklmnopqrstuvwxyz'' ''ABCDEFGHIJKLMNOPQRSTUVWXYZ'') c of
        None \<Rightarrow> c | Some d \<Rightarrow> d)"

definition toLowerCase :: "string \<Rightarrow> string" where
  "toLowerCase s = map lower_char s"

definition toUpperCase :: "string \<Rightarrow> string" where
  "toUpperCase s = map upper_char s"

text \<open>\<open>String.prototype.trim\<close>, on the ASCII white space characters.\<close>

definition is_space :: "char \<Rightarrow> bool" where
  "is_space c = (c \<in> set [CHR '' '', CHR 0x09, CHR 0x0A, CHR 0x0B, CHR 0x0C, CHR 0x0D])"

definition trim :: "string \<Rightarrow> string" where
  "trim s = rev (dropWhile is_space (rev (dropWhile is_space s)))"

text \<open>\<open>String.prototype.includes\<close>.\<close>

fun starts_with :: "string \<Rightarrow> string \<Rightarrow> bool" where
  "starts_with s [] = True"
| "starts_with [] (p # ps) = False"
| "starts_with (c # cs) (p # ps) = (c = p \<and> starts_with cs ps)"

fun includes_str :: "string \<Rightarrow> string \<Rightarrow> bool" where
  "includes_str [] t = (t = [])"
| "includes_str (c # cs) t = (starts_with (c # cs) t \<or> includes_str cs t)"

text \<open>\<open>Array.prototype.join\<close>.\<close>

fun join_with :: "string \<Rightarrow> string list \<Rightarrow> string" where
  "join_with sep [] = []"
| "join_with sep [x] = x"
| "join_with sep (x # y # ys) = x @ sep @ join_with sep (y # ys)"

text \<open>A number inside a template literal: its decimal digits.\<close>

definition digit_char :: "nat \<Rightarrow> char" where
  "digit_char d = ''0123456789'' ! (d mod 10)"

fun digits :: "nat \<Rightarrow> string" where
  "digits n = (if n < 10 then [digit_char n] else digits (n div 10) @ [digit_char n])"

declare digits.simps [simp del]

definition show_int :: "int \<Rightarrow> string" where
  "show_int i = (if i < 0 then ''-'' @ digits (nat (- i)) else digits (nat i))"

text \<open>
  The values a property lookup on the \<open>logLevels\<close> object literal can give: one of its
  four numbers, \<open>undefined\<close> for a missing key, or a member inherited from
  \<open>Object.prototype\<close> (a function, or the prototype object itself for \<open>__proto__\<close>).
  An inherited member is kept as the string a comparison converts it to: the text of
  the function, or \<open>[object Object]\<close>.
\<close>

datatype js_value = JNum int | JUndefined | JInherited string

text \<open>The order of strings under \<open><\<close>: by the first code unit that differs.\<close>

fun str_less :: "string \<Rightarrow> string \<Rightarrow> bool" where
  "str_less [] [] = False"
| "str_less [] (y # ys) = True"
| "str_less (x # xs) [] = False"
| "str_less (x # xs) (y # ys) =
     ((of_char x :: nat) < of_char y \<or> (x = y \<and> str_less xs ys))"

text \<open>
  \<open>a >= b\<close> on such values. Two numbers compare as numbers. Two inherited members are
  both converted to strings and compare as strings: \<open>a >= b\<close> is true unless \<open>a < b\<close>.
  In every other pairing a side converts to \<open>NaN\<close> (\<open>undefined\<close>, or the text of a
  member against a number), and every comparison with \<open>NaN\<close> is false.
\<close>

fun js_ge :: "js_value \<Rightarrow> js_value \<Rightarrow> bool" where
  "js_ge (JNum a) (JNum b) = (a \<ge> b)"
| "js_ge (JInherited s) (JInherited t) = (\<not> str_less s t)"
| "js_ge _ _ = False"

text \<open>
  A promise is pending, fulfilled with a value, or rejected with an error whose
  \<open>message\<close> is kept. Only the first \<open>resolve\<close> or \<open>reject\<close> settles it.
\<close>

datatype 'a promise = Pending | Fulfilled 'a | Rejected string

definition settle :: "'a promise \<Rightarrow> 'a promise \<Rightarrow> 'a promise" where
  "settle new p = (case p of Pending \<Rightarrow> new | _ \<Rightarrow> p)"

section \<open>Node's \<open>path\<close> module (POSIX)\<close>

text \<open>
  \<open>path.join\<close>, \<open>path.basename\<close> and \<open>path.extname\<close> belong to Node, not to the
  repository; they are modelled segment-wise after their documented behaviour.
\<close>

fun split_slash :: "string \<Rightarrow> string list" where
  "split_slash [] = [[]]"
| "split_slash (c # cs) =
     (if c = CHR ''/'' then [] # split_slash cs
      else (case split_slash cs of [] \<Rightarrow> [[c]] | s # ss \<Rightarrow> (c # s) # ss))"

fun normalizeString :: "bool \<Rightarrow> string list \<Rightarrow> string list \<Rightarrow> string list" where
  "normalizeString allowAboveRoot res [] = res"
| "normalizeString allowAboveRoot res (s # ss) =
     (if s = [] \<or> s = ''.'' then normalizeString allowAboveRoot res ss
      else if s = ''..'' then
        (if res \<noteq> [] \<and> last res \<noteq> ''..'' then normalizeString allowAboveRoot (butlast res) ss
         else if allowAboveRoot then normalizeString allowAboveRoot (res @ [''..'']) ss
         else normalizeString allowAboveRoot res ss)
      else normalizeString allowAboveRoot (res @ [s]) ss)"

definition path_normalize :: "string \<Rightarrow> string" where
  "path_normalize p =
     (if p = [] then ''.''
      else
        let isAbsolute = (hd p = CHR ''/'');
            trailingSeparator = (last p = CHR ''/'');
            q = join_with ''/'' (normalizeString (\<not> isAbsolute) [] (split_slash p))
        in if q = [] then (if isAbsolute then ''/'' else if trailingSeparator then ''./'' else ''.'')
           else (if isAbsolute then ''/'' else []) @ q @ (if trailingSeparator then ''/'' else []))"

definition path_join :: "string list \<Rightarrow> string" where
  "path_join args =
     (let parts = filter (\<lambda>a. a \<noteq> []) args
      in if parts = [] then ''.'' else path_normalize (join_with ''/'' parts))"

definition basename :: "string \<Rightarrow> string" where
  "basename p = (case filter (\<lambda>s. s \<noteq> []) (split_slash p) of [] \<Rightarrow> [] | s # ss \<Rightarrow> last (s # ss))"

text \<open>
  \<open>path.extname\<close>: from the last dot of the last portion of the path to its end; empty
  when there is no dot, when the only dot is the first character of that portion, and
  for the portion \<open>..\<close>.
\<close>

definition extname :: "string \<Rightarrow> string" where
  "extname p =
     (let b = basename p;
          ext = rev (takeWhile (\<lambda>c. c \<noteq> CHR ''.'') (rev b));
          stem = take (length b - length ext - 1) b
      in if CHR ''.'' \<notin> set b \<or> stem = [] \<or> b = ''..'' then [] else CHR ''.'' # ext)"

section \<open>The world outside the program\<close>

text \<open>
  What the child process tells its parent: chunks on its two output streams, the
  \<open>close\<close> event with the exit code (\<open>null\<close>, here \<open>None\<close>, when a signal ended it) and
  the \<open>error\<close> event with the error's message.
\<close>

datatype child_event =
    StdoutData string
  | StderrData string
  | CloseEv "int option"
  | ErrorEv string

text \<open>Everything the program does to the outside is recorded, in program order.\<close>

datatype event =
    ConsoleLog string
  | ConsoleError string
  | AppendFile string string
  | ReadDir string
  | EnsureDir string
  | EnsureFile string
  | PathExists string bool
  | Spawn string "string list" "child_event list"

text \<open>
  The state the listeners of one conversion share: the promise and the two buffers.
\<close>

record conversion =
  settled :: "unit promise"
  stderr :: string
  stdout :: string

text \<open>
  The listeners of a child stay registered once its promise has settled, and the child
  may still have events to deliver (the \<open>close\<close> that follows the \<open>error\<close> of a failed
  spawn). Node delivers them at a later turn of the event loop, while the program has
  moved on: such listeners are kept, with their state and the events still to come,
  apart from the record of effects, and nothing orders what they do with it.
\<close>

record undelivered =
  u_inputFile :: string
  u_outputFile :: string
  u_state :: conversion
  u_events :: "child_event list"

text \<open>
  The mutable part: the paths that exist, the number of times the clock has been read,
  the record of effects, and the listeners with events still to be delivered. A call
  that is not awaited in the source (every logger call) is recorded where it is issued.
\<close>

record world =
  paths :: "string list"
  ticks :: nat
  trace :: "event list"
  late :: "undelivered list"

text \<open>
  The part the program cannot change: the working directory, the clock, what the file
  system answers (an error message where an operation fails) and what a spawned
  command does (the events of the child and the paths existing once it has ended).
\<close>

record env =
  cwd :: string
  now :: "nat \<Rightarrow> string"
  readdir_res :: "string \<Rightarrow> string + string list"
  ensureDir_err :: "string \<Rightarrow> string option"
  ensureFile_err :: "string \<Rightarrow> string option"
  appendFile_err :: "string \<Rightarrow> string option"
  spawn_res :: "string \<Rightarrow> string list \<Rightarrow> string list \<Rightarrow> child_event list \<times> string list"

definition emit :: "event \<Rightarrow> world \<Rightarrow> world" where
  "emit e w = w\<lparr>trace := trace w @ [e]\<rparr>"

definition add_path :: "string \<Rightarrow> world \<Rightarrow> world" where
  "add_path p w = (if p \<in> set (paths w) then w else w\<lparr>paths := paths w @ [p]\<rparr>)"

text \<open>The \<open>fs-extra\<close> calls; \<open>Some m\<close> is a rejection with message \<open>m\<close>.\<close>

definition fs_ensureDir :: "env \<Rightarrow> string \<Rightarrow> world \<Rightarrow> string option \<times> world" where
  "fs_ensureDir E p w =
     (case ensureDir_err E p of
        Some m \<Rightarrow> (Some m, emit (EnsureDir p) w)
      | None \<Rightarrow> (None, add_path p (emit (EnsureDir p) w)))"

definition fs_ensureFile :: "env \<Rightarrow> string \<Rightarrow> world \<Rightarrow> string option \<times> world" where
  "fs_ensureFile E p w =
     (case ensureFile_err E p of
        Some m \<Rightarrow> (Some m, emit (EnsureFile p) w)
      | None \<Rightarrow> (None, add_path p (emit (EnsureFile p) w)))"

definition fs_appendFile :: "env \<Rightarrow> string \<Rightarrow> string \<Rightarrow> world \<Rightarrow> string option \<times> world" where
  "fs_appendFile E p d w =
     (case appendFile_err E p of
        Some m \<Rightarrow> (Some m, emit (AppendFile p d) w)
      | None \<Rightarrow> (None, add_path p (emit (AppendFile p d) w)))"

text \<open>\<open>fs.pathExists\<close> never rejects: it answers \<open>false\<close> on any error.\<close>

definition fs_pathExists :: "string \<Rightarrow> world \<Rightarrow> bool \<times> world" where
  "fs_pathExists p w = (p \<in> set (paths w), emit (PathExists p (p \<in> set (paths w))) w)"

definition fs_readdir :: "env \<Rightarrow> string \<Rightarrow> world \<Rightarrow> (string + string list) \<times> world" where
  "fs_readdir E p w = (readdir_res E p, emit (ReadDir p) w)"

text \<open>\<open>console.error(a, b)\<close> prints its arguments separated by a space.\<close>

definition console_error2 :: "string \<Rightarrow> string \<Rightarrow> world \<Rightarrow> world" where
  "console_error2 a b w = emit (ConsoleError (a @ '' '' @ b)) w"

section \<open>\<open>logger.js\<close>\<close>

record logger =
  logLevel :: string
  logToFile :: bool
  logDir :: string
  logFile :: string

text \<open>
  The \<open>logLevels\<close> table of the constructor, read with a string key as
  \<open>this.logLevels[level]\<close> does.
\<close>

definition object_prototype_keys :: "string list" where
  "object_prototype_keys =
     [''constructor'', ''hasOwnProperty'', ''isPrototypeOf'', ''propertyIsEnumerable'',
      ''toLocaleString'', ''toString'', ''valueOf'', ''__proto__'',
      ''__defineGetter__'', ''__defineSetter__'', ''__lookupGetter__'', ''__lookupSetter__'']"

text \<open>
  What an inherited member converts to in a comparison: \<open>Object.prototype\<close> itself
  (under \<open>__proto__\<close>) gives \<open>[object Object]\<close>, a built-in function gives its text
  as V8 prints it, \<open>constructor\<close> being the function \<open>Object\<close>.
\<close>

definition inherited_text :: "string \<Rightarrow> string" where
  "inherited_text k =
     (if k = ''__proto__'' then ''[object Object]''
      else if k = ''constructor'' then ''function Object() { [native code] }''
      else ''function '' @ k @ ''() { [native code] }'')"

definition logLevels :: "string \<Rightarrow> js_value" where
  "logLevels k =
     (if k = ''debug'' then JNum 0
      else if k = ''info'' then JNum 1
      else if k = ''warn'' then JNum 2
      else if k = ''error'' then JNum 3
      else if k \<in> set object_prototype_keys then JInherited (inherited_text k)
      else JUndefined)"

text \<open>\<open>new Date().toISOString()\<close>: the clock is read once more.\<close>

definition getTimestamp :: "env \<Rightarrow> world \<Rightarrow> string \<times> world" where
  "getTimestamp E w = (now E (ticks w), w\<lparr>ticks := Suc (ticks w)\<rparr>)"

definition getDateString :: "env \<Rightarrow> world \<Rightarrow> string \<times> world" where
  "getDateString E w =
     (takeWhile (\<lambda>c. c \<noteq> CHR ''T'') (now E (ticks w)), w\<lparr>ticks := Suc (ticks w)\<rparr>)"

definition initializeLogFile :: "env \<Rightarrow> logger \<Rightarrow> world \<Rightarrow> world" where
  "initializeLogFile E lg w =
     (case fs_ensureDir E (logDir lg) w of
        (Some m, w1) \<Rightarrow> console_error2 ''Failed to initialize log file:'' m w1
      | (None, w1) \<Rightarrow>
          (case fs_ensureFile E (logFile lg) w1 of
             (Some m, w2) \<Rightarrow> console_error2 ''Failed to initialize log file:'' m w2
           | (None, w2) \<Rightarrow> w2))"

text \<open>
  The constructor. Without a file sink the fields \<open>logDir\<close> and \<open>logFile\<close> stay unset
  in the source and are never read; the model leaves them empty. The defaults of the
  source (\<open>'info'\<close> and \<open>true\<close>) stand for omitted arguments; \<open>main.js\<close> passes the level
  only, so its loggers have the file sink.
\<close>

definition Logger_new :: "env \<Rightarrow> string \<Rightarrow> bool \<Rightarrow> world \<Rightarrow> logger \<times> world" where
  "Logger_new E level toFile w =
     (if toFile then
        let dir = path_join [cwd E, ''logs''];
            (d, w1) = getDateString E w;
            lg = \<lparr>logLevel = level, logToFile = toFile, logDir = dir,
                  logFile = path_join [dir, ''mp3-cover-art-'' @ d @ ''.log'']\<rparr>
        in (lg, initializeLogFile E lg w1)
      else (\<lparr>logLevel = level, logToFile = toFile, logDir = [], logFile = []\<rparr>, w))"

definition shouldLog :: "logger \<Rightarrow> string \<Rightarrow> bool" where
  "shouldLog lg level = js_ge (logLevels level) (logLevels (logLevel lg))"

definition formatMessage :: "env \<Rightarrow> string \<Rightarrow> string \<Rightarrow> world \<Rightarrow> string \<times> world" where
  "formatMessage E level message w =
     (let (timestamp, w1) = getTimestamp E w
      in (''['' @ timestamp @ ''] ['' @ toUpperCase level @ ''] '' @ message, w1))"

definition writeToFile :: "env \<Rightarrow> logger \<Rightarrow> string \<Rightarrow> world \<Rightarrow> world" where
  "writeToFile E lg formattedMessage w =
     (if logToFile lg then
        (case fs_appendFile E (logFile lg) (formattedMessage @ [CHR 0x0A]) w of
           (Some m, w1) \<Rightarrow> console_error2 ''Failed to write to log file:'' m w1
         | (None, w1) \<Rightarrow> w1)
      else w)"

text \<open>The colour wrapping of the \<open>switch\<close> in \<open>log\<close>.\<close>

definition colourise :: "string \<Rightarrow> string \<Rightarrow> string" where
  "colourise level s =
     (if level = ''debug'' then CHR 0x1B # ''[36m'' @ s @ CHR 0x1B # ''[0m''
      else if level = ''info'' then CHR 0x1B # ''[32m'' @ s @ CHR 0x1B # ''[0m''
      else if level = ''warn'' then CHR 0x1B # ''[33m'' @ s @ CHR 0x1B # ''[0m''
      else if level = ''error'' then CHR 0x1B # ''[31m'' @ s @ CHR 0x1B # ''[0m''
      else s)"

definition log :: "env \<Rightarrow> logger \<Rightarrow> string \<Rightarrow> string \<Rightarrow> world \<Rightarrow> world" where
  "log E lg level message w =
     (if \<not> shouldLog lg level then w
      else
        let (formattedMessage, w1) = formatMessage E level message w;
            w2 = emit (ConsoleLog (colourise level formattedMessage)) w1
        in writeToFile E lg formattedMessage w2)"

definition debug :: "env \<Rightarrow> logger \<Rightarrow> string \<Rightarrow> world \<Rightarrow> world" where
  "debug E lg message w = log E lg ''debug'' message w"

definition info :: "env \<Rightarrow> logger \<Rightarrow> string \<Rightarrow> world \<Rightarrow> world" where
  "info E lg message w = log E lg ''info'' message w"

definition warn :: "env \<Rightarrow> logger \<Rightarrow> string \<Rightarrow> world \<Rightarrow> world" where
  "warn E lg message w = log E lg ''warn'' message w"

definition error :: "env \<Rightarrow> logger \<Rightarrow> string \<Rightarrow> world \<Rightarrow> world" where
  "error E lg message w = log E lg ''error'' message w"

section \<open>\<open>mp3Processor.js\<close>\<close>

text \<open>The two marks of the log messages, U+2713 and U+2717, in UTF-8.\<close>

definition check_mark :: string where
  "check_mark = [CHR 0xE2, CHR 0x9C, CHR 0x93]"

definition cross_mark :: string where
  "cross_mark = [CHR 0xE2, CHR 0x9C, CHR 0x97]"

text \<open>An exit code inside a template literal.\<close>

definition show_code :: "int option \<Rightarrow> string" where
  "show_code code = (case code of None \<Rightarrow> ''null'' | Some n \<Rightarrow> show_int n)"

subsection \<open>\<open>getMp3Files\<close>\<close>

definition getMp3Files ::
  "env \<Rightarrow> logger \<Rightarrow> string \<Rightarrow> world \<Rightarrow> (string + string list) \<times> world" where
  "getMp3Files E lg folderPath w =
     (case fs_readdir E folderPath w of
        (Inl m, w1) \<Rightarrow> (Inl (''Failed to read directory '' @ folderPath @ '': '' @ m), w1)
      | (Inr files, w1) \<Rightarrow>
          let mp3Files =
                map (\<lambda>file. path_join [folderPath, file])
                  (filter (\<lambda>file. toLowerCase (extname file) = ''.mp3'') files)
          in (Inr mp3Files,
              info E lg (''Found '' @ show_int (int (length mp3Files)) @ '' MP3 files in ''
                         @ folderPath) w1))"

subsection \<open>\<open>applyCoverArt\<close>\<close>

definition ffmpegArgs :: "string \<Rightarrow> string \<Rightarrow> string \<Rightarrow> string list" where
  "ffmpegArgs inputFile coverArtPath outputFile =
     [''-i'', inputFile,
      ''-i'', coverArtPath,
      ''-map'', ''0:a'',
      ''-map'', ''1:0'',
      ''-c:a'', ''copy'',
      ''-c:v'', ''copy'',
      ''-id3v2_version'', ''3'',
      ''-disposition:v:0'', ''attached_pic'',
      ''-y'',
      outputFile]"

fun on_event ::
  "env \<Rightarrow> logger \<Rightarrow> string \<Rightarrow> string \<Rightarrow> conversion \<times> world \<Rightarrow> child_event \<Rightarrow> conversion \<times> world"
  where
  "on_event E lg inputFile outputFile (c, w) (StdoutData d) = (c\<lparr>stdout := stdout c @ d\<rparr>, w)"
| "on_event E lg inputFile outputFile (c, w) (StderrData line) =
     (c\<lparr>stderr := stderr c @ line\<rparr>,
      if includes_str line ''time='' then debug E lg (''FFmpeg: '' @ trim line) w else w)"
| "on_event E lg inputFile outputFile (c, w) (CloseEv code) =
     (if code = Some 0 then
        (c\<lparr>settled := settle (Fulfilled ()) (settled c)\<rparr>,
         info E lg (check_mark @ '' Completed: '' @ basename outputFile) w)
      else
        (c\<lparr>settled := settle (Rejected (''FFmpeg process exited with code '' @ show_code code))
                         (settled c)\<rparr>,
         let w1 = error E lg (cross_mark @ '' Failed to process '' @ basename inputFile
                              @ '': FFmpeg exited with code '' @ show_code code) w
         in if stderr c \<noteq> [] then error E lg (''FFmpeg stderr: '' @ trim (stderr c)) w1 else w1))"
| "on_event E lg inputFile outputFile (c, w) (ErrorEv m) =
     (c\<lparr>settled := settle (Rejected m) (settled c)\<rparr>,
      error E lg (cross_mark @ '' Failed to start FFmpeg: '' @ m) w)"

text \<open>
  The promise executor. The awaiting caller goes on as soon as the promise settles:
  the events of the child up to the settling one are handled while the caller waits,
  the events after it are left with the listeners.
\<close>

fun upto_settled :: "child_event list \<Rightarrow> child_event list" where
  "upto_settled [] = []"
| "upto_settled (CloseEv code # evs) = [CloseEv code]"
| "upto_settled (ErrorEv m # evs) = [ErrorEv m]"
| "upto_settled (ev # evs) = ev # upto_settled evs"

definition after_settled :: "child_event list \<Rightarrow> child_event list" where
  "after_settled evs = drop (length (upto_settled evs)) evs"

definition keep_listening :: "string \<Rightarrow> string \<Rightarrow> conversion \<Rightarrow> child_event list \<Rightarrow> world \<Rightarrow> world" where
  "keep_listening inputFile outputFile c evs w =
     (if evs = [] then w
      else w\<lparr>late := late w @ [\<lparr>u_inputFile = inputFile, u_outputFile = outputFile,
                               u_state = c, u_events = evs\<rparr>]\<rparr>)"

definition applyCoverArt ::
  "env \<Rightarrow> logger \<Rightarrow> string \<Rightarrow> string \<Rightarrow> string \<Rightarrow> world \<Rightarrow> unit promise \<times> world" where
  "applyCoverArt E lg inputFile coverArtPath outputFile w =
     (let w1 = info E lg (''Processing: '' @ basename inputFile) w;
          args = ffmpegArgs inputFile coverArtPath outputFile;
          w2 = info E lg (''FFmpeg command: ffmpeg '' @ join_with '' '' args) w1;
          (evs, ps) = spawn_res E ''ffmpeg'' args (paths w2);
          w3 = emit (Spawn ''ffmpeg'' args evs) (w2\<lparr>paths := ps\<rparr>);
          (c, w4) = foldl (on_event E lg inputFile outputFile)
                      (\<lparr>settled = Pending, stderr = [], stdout = []\<rparr>, w3) (upto_settled evs)
      in (settled c, keep_listening inputFile outputFile c (after_settled evs) w4))"

text \<open>What the listeners kept in \<open>late\<close> do once their events are delivered.\<close>

definition deliver :: "env \<Rightarrow> logger \<Rightarrow> undelivered \<Rightarrow> world \<Rightarrow> world" where
  "deliver E lg u w =
     snd (foldl (on_event E lg (u_inputFile u) (u_outputFile u)) (u_state u, w) (u_events u))"

subsection \<open>\<open>processFolder\<close>\<close>

text \<open>
  The \<open>for\<close> loop with its two counters. An awaited conversion that never settles
  leaves the loop waiting for ever: the result is \<open>None\<close>.
\<close>

fun process_files ::
  "env \<Rightarrow> logger \<Rightarrow> string \<Rightarrow> string \<Rightarrow> string list \<Rightarrow> int \<times> int \<Rightarrow> world
     \<Rightarrow> (int \<times> int) option \<times> world" where
  "process_files E lg coverArtPath outputFolder [] (successCount, failureCount) w =
     (Some (successCount, failureCount), w)"
| "process_files E lg coverArtPath outputFolder (inputFile # rest) (successCount, failureCount) w =
     (let fileName = basename inputFile;
          outputFile = path_join [outputFolder, fileName];
          (ex, w1) = fs_pathExists outputFile w
      in if ex then
           process_files E lg coverArtPath outputFolder rest (successCount, failureCount)
             (warn E lg (''Output file already exists, skipping: '' @ fileName) w1)
         else
           (case applyCoverArt E lg inputFile coverArtPath outputFile w1 of
              (Fulfilled u, w2) \<Rightarrow>
                process_files E lg coverArtPath outputFolder rest (successCount + 1, failureCount) w2
            | (Rejected m, w2) \<Rightarrow>
                process_files E lg coverArtPath outputFolder rest (successCount, failureCount + 1)
                  (error E lg (''Failed to process '' @ basename inputFile @ '': '' @ m) w2)
            | (Pending, w2) \<Rightarrow> (None, w2)))"

text \<open>
  The four numbers of the summary block. The promise of \<open>processFolder\<close> fulfils with
  \<open>undefined\<close> on every path; so that theorems can speak of the numbers the summary
  prints, the model hands them back where the source logs them, and \<open>None\<close> where the
  source returns without a summary.
\<close>

record tally =
  totalDiscovered :: int
  succeeded :: int
  failed :: int
  skipped :: int

datatype 'a outcome = Returns 'a | Throws string | Hangs

definition log_summary :: "env \<Rightarrow> logger \<Rightarrow> tally \<Rightarrow> string \<Rightarrow> world \<Rightarrow> world" where
  "log_summary E lg t outputFolder w =
     (let w1 = info E lg (CHR 0x0A # ''=== Processing Summary ==='') w;
          w2 = info E lg (''Total files: '' @ show_int (totalDiscovered t)) w1;
          w3 = info E lg (''Successful: '' @ show_int (succeeded t)) w2;
          w4 = info E lg (''Failed: '' @ show_int (failed t)) w3;
          w5 = info E lg (''Skipped: '' @ show_int (skipped t)) w4
      in if succeeded t > 0
         then info E lg (check_mark @ '' All processed files saved to: '' @ outputFolder) w5
         else w5)"

definition processFolder ::
  "env \<Rightarrow> logger \<Rightarrow> string \<Rightarrow> string \<Rightarrow> string \<Rightarrow> world \<Rightarrow> tally option outcome \<times> world" where
  "processFolder E lg inputFolder coverArtPath outputFolder w =
     (case getMp3Files E lg inputFolder w of
        (Inl m, w1) \<Rightarrow> (Throws (''Failed to process folder: '' @ m), w1)
      | (Inr mp3Files, w1) \<Rightarrow>
          if length mp3Files = 0 then
            (Returns None, warn E lg ''No MP3 files found in the input folder'' w1)
          else
            (case fs_ensureDir E outputFolder w1 of
               (Some m, w2) \<Rightarrow> (Throws (''Failed to process folder: '' @ m), w2)
             | (None, w2) \<Rightarrow>
                 let w3 = info E lg (''Starting to process '' @ show_int (int (length mp3Files))
                                     @ '' MP3 files...'') w2
                 in (case process_files E lg coverArtPath outputFolder mp3Files (0, 0) w3 of
                       (None, w4) \<Rightarrow> (Hangs, w4)
                     | (Some (successCount, failureCount), w4) \<Rightarrow>
                         let t = \<lparr>totalDiscovered = int (length mp3Files),
                                  succeeded = successCount,
                                  failed = failureCount,
                                  skipped = int (length mp3Files) - successCount - failureCount\<rparr>
                         in (Returns (Some t), log_summary E lg t outputFolder w4))))"

subsection \<open>\<open>validateFFmpeg\<close>\<close>

fun on_probe_event :: "bool promise \<Rightarrow> child_event \<Rightarrow> bool promise" where
  "on_probe_event p (CloseEv code) = settle (Fulfilled (code = Some 0)) p"
| "on_probe_event p (ErrorEv m) = settle (Fulfilled False) p"
| "on_probe_event p (StdoutData d) = p"
| "on_probe_event p (StderrData d) = p"

definition validateFFmpeg :: "env \<Rightarrow> world \<Rightarrow> bool promise \<times> world" where
  "validateFFmpeg E w =
     (let (evs, ps) = spawn_res E ''ffmpeg'' [''-version''] (paths w);
          w1 = emit (Spawn ''ffmpeg'' [''-version''] evs) (w\<lparr>paths := ps\<rparr>)
      in (foldl on_probe_event Pending evs, w1))"

section \<open>Observations on a run\<close>

text \<open>The level names the logger knows.\<close>

definition recognized :: "string list" where
  "recognized = [''debug'', ''info'', ''warn'', ''error'']"

text \<open>The effects that are output of the logger: console lines and file appends.\<close>

fun is_sink_event :: "event \<Rightarrow> bool" where
  "is_sink_event (ConsoleLog s) = True"
| "is_sink_event (ConsoleError s) = True"
| "is_sink_event (AppendFile p d) = True"
| "is_sink_event _ = False"

text \<open>
  How a child process ended, read off its events: the first \<open>close\<close> or \<open>error\<close> event
  decides. It succeeded when that event is \<open>close\<close> with exit code 0; it failed when it
  is \<open>close\<close> with any other code or \<open>error\<close> (the process could not be started).
\<close>

fun is_settling :: "child_event \<Rightarrow> bool" where
  "is_settling (CloseEv code) = True"
| "is_settling (ErrorEv m) = True"
| "is_settling _ = False"

definition first_settling :: "child_event list \<Rightarrow> child_event option" where
  "first_settling evs = find is_settling evs"

definition child_succeeded :: "child_event list \<Rightarrow> bool" where
  "child_succeeded evs = (first_settling evs = Some (CloseEv (Some 0)))"

definition child_failed :: "child_event list \<Rightarrow> bool" where
  "child_failed evs =
     (case first_settling evs of
        Some (CloseEv code) \<Rightarrow> code \<noteq> Some 0
      | Some (ErrorEv m) \<Rightarrow> True
      | _ \<Rightarrow> False)"

text \<open>The promise of one conversion, as the first settling event leaves it.\<close>

fun conversion_result :: "child_event option \<Rightarrow> unit promise" where
  "conversion_result None = Pending"
| "conversion_result (Some (CloseEv code)) =
     (if code = Some 0 then Fulfilled ()
      else Rejected (''FFmpeg process exited with code '' @ show_code code))"
| "conversion_result (Some (ErrorEv m)) = Rejected m"
| "conversion_result (Some _) = Pending"

text \<open>
  Events of a batch: a destination found to exist (the candidate is skipped), a spawned
  process, a conversion that succeeded, a conversion that failed.
\<close>

fun is_skip :: "event \<Rightarrow> bool" where
  "is_skip (PathExists p ex) = ex"
| "is_skip _ = False"

fun is_spawn :: "event \<Rightarrow> bool" where
  "is_spawn (Spawn c a evs) = True"
| "is_spawn _ = False"

fun is_conversion_ok :: "event \<Rightarrow> bool" where
  "is_conversion_ok (Spawn c a evs) = child_succeeded evs"
| "is_conversion_ok _ = False"

fun is_conversion_failed :: "event \<Rightarrow> bool" where
  "is_conversion_failed (Spawn c a evs) = child_failed evs"
| "is_conversion_failed _ = False"

definition count_ev :: "(event \<Rightarrow> bool) \<Rightarrow> world \<Rightarrow> int" where
  "count_ev p w = int (length (filter p (trace w)))"

text \<open>The file names discovery keeps.\<close>

definition is_mp3 :: "string \<Rightarrow> bool" where
  "is_mp3 file = (toLowerCase (extname file) = ''.mp3'')"

text \<open>The lines written with \<open>console.log\<close>, oldest first.\<close>

fun console_text :: "event \<Rightarrow> string list" where
  "console_text (ConsoleLog s) = [s]"
| "console_text _ = []"

definition console_lines :: "world \<Rightarrow> string list" where
  "console_lines w = concat (map console_text (trace w))"

text \<open>The line the logger prints for a message at a level, at the \<open>k\<close>-th reading of the clock.\<close>

definition console_line :: "env \<Rightarrow> nat \<Rightarrow> string \<Rightarrow> string \<Rightarrow> string" where
  "console_line E k level message =
     colourise level (''['' @ now E k @ ''] ['' @ toUpperCase level @ ''] '' @ message)"

definition file_line :: "env \<Rightarrow> nat \<Rightarrow> string \<Rightarrow> string \<Rightarrow> string" where
  "file_line E k level message =
     ''['' @ now E k @ ''] ['' @ toUpperCase level @ ''] '' @ message @ [CHR 0x0A]"

text \<open>Whether the file sink could not be initialised, and with which message.\<close>

definition init_error :: "env \<Rightarrow> logger \<Rightarrow> string option" where
  "init_error E lg =
     (case ensureDir_err E (logDir lg) of Some m \<Rightarrow> Some m | None \<Rightarrow> ensureFile_err E (logFile lg))"

text \<open>
  Names for the pieces of one turn of the loop: the destination of a candidate, the
  paths existing when its \<open>ffmpeg\<close> is spawned (two lines have been logged by then),
  the events of that child, the paths once it has ended, and the world with which the
  loop goes on to the next candidate.
\<close>

definition destination :: "string \<Rightarrow> string \<Rightarrow> string" where
  "destination outputFolder inputFile = path_join [outputFolder, basename inputFile]"

definition paths_at_spawn :: "env \<Rightarrow> logger \<Rightarrow> string \<Rightarrow> string \<Rightarrow> string \<Rightarrow> world \<Rightarrow> string list" where
  "paths_at_spawn E lg inputFile coverArtPath outputFile w =
     paths (info E lg (''FFmpeg command: ffmpeg ''
                       @ join_with '' '' (ffmpegArgs inputFile coverArtPath outputFile))
             (info E lg (''Processing: '' @ basename inputFile) w))"

definition child_of :: "env \<Rightarrow> logger \<Rightarrow> string \<Rightarrow> string \<Rightarrow> string \<Rightarrow> world \<Rightarrow> child_event list" where
  "child_of E lg inputFile coverArtPath outputFile w =
     fst (spawn_res E ''ffmpeg'' (ffmpegArgs inputFile coverArtPath outputFile)
            (paths_at_spawn E lg inputFile coverArtPath outputFile w))"

definition paths_after_child :: "env \<Rightarrow> logger \<Rightarrow> string \<Rightarrow> string \<Rightarrow> string \<Rightarrow> world \<Rightarrow> string list" where
  "paths_after_child E lg inputFile coverArtPath outputFile w =
     snd (spawn_res E ''ffmpeg'' (ffmpegArgs inputFile coverArtPath outputFile)
            (paths_at_spawn E lg inputFile coverArtPath outputFile w))"

definition candidate_child :: "env \<Rightarrow> logger \<Rightarrow> string \<Rightarrow> string \<Rightarrow> string \<Rightarrow> world \<Rightarrow> child_event list" where
  "candidate_child E lg coverArtPath outputFolder inputFile w =
     child_of E lg inputFile coverArtPath (destination outputFolder inputFile)
       (emit (PathExists (destination outputFolder inputFile) False) w)"

definition next_world :: "env \<Rightarrow> logger \<Rightarrow> string \<Rightarrow> string \<Rightarrow> string \<Rightarrow> world \<Rightarrow> world" where
  "next_world E lg coverArtPath outputFolder inputFile w =
     (if destination outputFolder inputFile \<in> set (paths w) then
        warn E lg (''Output file already exists, skipping: '' @ basename inputFile)
          (emit (PathExists (destination outputFolder inputFile) True) w)
      else
        (case applyCoverArt E lg inputFile coverArtPath (destination outputFolder inputFile)
                (emit (PathExists (destination outputFolder inputFile) False) w) of
           (Rejected m, w2) \<Rightarrow>
             error E lg (''Failed to process '' @ basename inputFile @ '': '' @ m) w2
         | (_, w2) \<Rightarrow> w2))"

text \<open>
  Names for the pieces of \<open>processFolder\<close>: the candidate paths, the world in which the
  loop starts, and the numbers of the summary for given counters.
\<close>

definition tally_of :: "nat \<Rightarrow> int \<Rightarrow> int \<Rightarrow> tally" where
  "tally_of n successCount failureCount =
     \<lparr>totalDiscovered = int n, succeeded = successCount, failed = failureCount,
      skipped = int n - successCount - failureCount\<rparr>"

definition batch_start :: "env \<Rightarrow> logger \<Rightarrow> string \<Rightarrow> string \<Rightarrow> nat \<Rightarrow> world \<Rightarrow> world" where
  "batch_start E lg inputFolder outputFolder n w =
     info E lg (''Starting to process '' @ show_int (int n) @ '' MP3 files...'')
       (add_path outputFolder (emit (EnsureDir outputFolder)
          (info E lg (''Found '' @ show_int (int n) @ '' MP3 files in '' @ inputFolder)
             (emit (ReadDir inputFolder) w))))"

definition candidates :: "string \<Rightarrow> string list \<Rightarrow> string list" where
  "candidates inputFolder names = map (\<lambda>file. path_join [inputFolder, file]) (filter is_mp3 names)"

text \<open>
  The five console lines of the summary block when its first line is printed at the
  \<open>k\<close>-th reading of the clock, and whether the console shows a summary header.
\<close>

definition summary_console :: "env \<Rightarrow> nat \<Rightarrow> tally \<Rightarrow> string list" where
  "summary_console E k t =
     [console_line E k ''info'' (CHR 0x0A # ''=== Processing Summary ===''),
      console_line E (k + 1) ''info'' (''Total files: '' @ show_int (totalDiscovered t)),
      console_line E (k + 2) ''info'' (''Successful: '' @ show_int (succeeded t)),
      console_line E (k + 3) ''info'' (''Failed: '' @ show_int (failed t)),
      console_line E (k + 4) ''info'' (''Skipped: '' @ show_int (skipped t))]"

definition mentions_summary :: "world \<Rightarrow> bool" where
  "mentions_summary w =
     list_ex (\<lambda>s. includes_str s ''=== Processing Summary ==='') (console_lines w)"

section \<open>Example worlds\<close>

text \<open>
  A machine with one input folder \<open>/in\<close> holding the given names, an \<open>ffmpeg\<close> that
  fails on the given destinations and writes its output file otherwise, and a log
  directory that cannot be created when an error message is given.
\<close>

definition demo_env :: "string list \<Rightarrow> string list \<Rightarrow> string option \<Rightarrow> env" where
  "demo_env names bad log_err =
     \<lparr>cwd = ''/app'',
      now = (\<lambda>n. ''2024-05-17T10:00:'' @ digits (10 + n) @ ''.000Z''),
      readdir_res = (\<lambda>p. if p = ''/in'' then Inr names else Inl ''ENOENT: no such file or directory''),
      ensureDir_err = (\<lambda>p. if p = ''/app/logs'' then log_err else None),
      ensureFile_err = (\<lambda>p. None),
      appendFile_err = (\<lambda>p. log_err),
      spawn_res = (\<lambda>c args ps.
        if args = [''-version''] then ([StdoutData ''ffmpeg version 6.0'', CloseEv (Some 0)], ps)
        else if last args \<in> set bad
          then ([StderrData ''Invalid data found when processing input'', CloseEv (Some 1)], ps)
          else ([CloseEv (Some 0)], if last args \<in> set ps then ps else ps @ [last args]))\<rparr>"

definition start :: world where
  "start = \<lparr>paths = [''/in'', ''/c.jpg''], ticks = 0, trace = [], late = []\<rparr>"

definition demo_logger :: "string \<Rightarrow> logger" where
  "demo_logger level =
     \<lparr>logLevel = level, logToFile = True, logDir = ''/app/logs'',
      logFile = ''/app/logs/mp3-cover-art-2024-05-17.log''\<rparr>"

text \<open>The same machine with a log directory that cannot be created.\<close>

definition locked_env :: env where
  "locked_env = demo_env [] [] (Some ''EACCES: permission denied'')"

text \<open>A machine whose only candidate, \<open>b.mp3\<close>, cannot be converted.\<close>

definition failing_env :: env where
  "failing_env = demo_env [''b.mp3''] [''/out/b.mp3''] None"

section \<open>Properties of the logger\<close>

lemmas sink_defs = log_def formatMessage_def getTimestamp_def writeToFile_def fs_appendFile_def
  emit_def add_path_def console_error2_def

lemma logLevels_num_iff: "(\<exists>n. logLevels k = JNum n) \<longleftrightarrow> k \<in> set recognized"
  by (auto simp: logLevels_def recognized_def)

lemma js_ge_num: "js_ge (JNum a) b \<Longrightarrow> \<exists>n. b = JNum n"
  by (cases b) auto

lemma shouldLog_recognized:
  "level \<in> set recognized \<Longrightarrow> shouldLog lg level \<Longrightarrow> logLevel lg \<in> set recognized"
  unfolding shouldLog_def using js_ge_num logLevels_num_iff by metis

text \<open>
  Level names outside the four are not all alike: two members inherited from
  \<open>Object.prototype\<close> compare by their texts, so a threshold \<open>toString\<close> lets a call at
  the level \<open>valueOf\<close> through, while no call at one of the four levels passes it.
\<close>

lemma inherited_levels_compare_as_text:
  "shouldLog \<lparr>logLevel = ''toString'', logToFile = b, logDir = d, logFile = f\<rparr> ''valueOf''"
  "\<not> shouldLog \<lparr>logLevel = ''toString'', logToFile = b, logDir = d, logFile = f\<rparr> ''error''"
  by (simp_all add: shouldLog_def logLevels_def object_prototype_keys_def inherited_text_def)

lemma Logger_new_level: "logLevel (fst (Logger_new E thr toFile w)) = thr"
  by (simp add: Logger_new_def Let_def split: prod.splits)

lemma Logger_new_toFile: "logToFile (fst (Logger_new E thr toFile w)) = toFile"
  by (simp add: Logger_new_def Let_def split: prod.splits)

lemma log_below:
  assumes "logLevels level = JNum a" "logLevels (logLevel lg) = JNum b" "a < b"
  shows "log E lg level message w = w"
  using assms by (simp add: log_def shouldLog_def)

lemma log_passes:
  assumes "shouldLog lg level" "logToFile lg"
  shows "trace (log E lg level message w) =
           trace w @ [ConsoleLog (console_line E (ticks w) level message),
                      AppendFile (logFile lg) (file_line E (ticks w) level message)]
             @ (case appendFile_err E (logFile lg) of None \<Rightarrow> []
                | Some m \<Rightarrow> [ConsoleError (''Failed to write to log file: '' @ m)])"
  using assms by (simp add: sink_defs console_line_def file_line_def split: option.splits)

text \<open>
  Claim C6. With the threshold \<open>warn\<close> (and the file sink enabled, as the constructor
  leaves it by default), \<open>debug\<close> and \<open>info\<close> leave the world as it is: no console
  line, no file append, no reading of the clock. \<open>warn\<close> and \<open>error\<close> write the
  formatted line to the console and append it to the log file (where the file system
  rejects the append, that is reported on the console). In general, a \<open>log\<close> call whose
  level ranks below the threshold changes nothing.
\<close>

theorem level_filtering:
  assumes "logLevel lg = ''warn''" and "logToFile lg"
  shows "debug E lg message w = w \<and> info E lg message w = w
    \<and> trace (warn E lg message w) =
        trace w @ [ConsoleLog (console_line E (ticks w) ''warn'' message),
                   AppendFile (logFile lg) (file_line E (ticks w) ''warn'' message)]
          @ (case appendFile_err E (logFile lg) of None \<Rightarrow> []
             | Some m \<Rightarrow> [ConsoleError (''Failed to write to log file: '' @ m)])
    \<and> trace (error E lg message w) =
        trace w @ [ConsoleLog (console_line E (ticks w) ''error'' message),
                   AppendFile (logFile lg) (file_line E (ticks w) ''error'' message)]
          @ (case appendFile_err E (logFile lg) of None \<Rightarrow> []
             | Some m \<Rightarrow> [ConsoleError (''Failed to write to log file: '' @ m)])
    \<and> (logLevels level = JNum a \<longrightarrow> logLevels (logLevel lg2) = JNum b \<longrightarrow> a < b
          \<longrightarrow> log E lg2 level message w = w)"
proof -
  have quiet: "debug E lg message w = w" "info E lg message w = w"
    using assms(1) by (simp_all add: debug_def info_def log_def shouldLog_def logLevels_def)
  have loud: "shouldLog lg ''warn''" "shouldLog lg ''error''"
    using assms(1) by (simp_all add: shouldLog_def logLevels_def)
  show ?thesis
    using quiet log_passes [OF loud(1) assms(2)] log_passes [OF loud(2) assms(2)] log_below
    unfolding warn_def error_def by blast
qed

theorem level_filtering_witness:
  "debug (demo_env [] [] None) (demo_logger ''warn'') ''m'' start = start
   \<and> console_lines (warn (demo_env [] [] None) (demo_logger ''warn'') ''m'' start)
       = [CHR 0x1B # ''[33m[2024-05-17T10:00:10.000Z] [WARN] m'' @ CHR 0x1B # ''[0m'']
   \<and> log (demo_env [] [] None) (demo_logger ''error'') ''info'' ''m'' start = start"
proof -
  have a: "logLevel (demo_logger ''warn'') = ''warn''" "logToFile (demo_logger ''warn'')"
    by (simp_all add: demo_logger_def)
  have b: "logLevels ''info'' = JNum 1" "logLevels (logLevel (demo_logger ''error'')) = JNum 3"
    by (simp_all add: logLevels_def demo_logger_def)
  show ?thesis
    using level_filtering [OF a, of "demo_env [] [] None" "''m''" start "''info''" 1
        "demo_logger ''error''" 3] b
    by (simp add: console_lines_def console_line_def colourise_def demo_env_def start_def
        toUpperCase_def upper_char_def digits.simps digit_char_def split: option.splits)
qed

text \<open>
  Claim C10. A logger constructed with a threshold outside \<open>debug\<close>, \<open>info\<close>, \<open>warn\<close>,
  \<open>error\<close> is silent at each of these four levels: the lookup of the threshold gives
  no number, the comparison in \<open>shouldLog\<close> is false, and \<open>log\<close> at such a level,
  \<open>debug\<close>, \<open>info\<close>, \<open>warn\<close> and \<open>error\<close> return with the world unchanged: no console
  line, no file append.
\<close>

theorem unknown_threshold_suppresses_all:
  assumes "thr \<notin> set recognized" and "level \<in> set recognized"
  shows "let lg = fst (Logger_new E thr toFile w0) in
           log E lg level message w = w \<and> debug E lg message w = w \<and> info E lg message w = w
           \<and> warn E lg message w = w \<and> error E lg message w = w"
proof -
  have "\<not> shouldLog (fst (Logger_new E thr toFile w0)) l" if "l \<in> set recognized" for l
    using assms(1) that shouldLog_recognized [of l "fst (Logger_new E thr toFile w0)"]
    by (auto simp: Logger_new_level)
  then show ?thesis
    using assms(2) by (simp add: log_def debug_def info_def warn_def error_def Let_def recognized_def)
qed

theorem unknown_threshold_suppresses_all_witness:
  "''verbose'' \<notin> set recognized \<and> ''toString'' \<notin> set recognized \<and> ''error'' \<in> set recognized
   \<and> error (demo_env [] [] None) (fst (Logger_new (demo_env [] [] None) ''verbose'' True start))
        ''disk full'' start = start
   \<and> log (demo_env [] [] None) (fst (Logger_new (demo_env [] [] None) ''toString'' True start))
        ''error'' ''disk full'' start = start"
  using unknown_threshold_suppresses_all [of "''verbose''" "''error''" "demo_env [] [] None" True start
      "''disk full''" start]
    unknown_threshold_suppresses_all [of "''toString''" "''error''" "demo_env [] [] None" True start
      "''disk full''" start]
  by (simp add: recognized_def Let_def)

lemma Logger_new_True:
  "Logger_new E thr True w = (lg, w1) \<Longrightarrow>
     logToFile lg \<and> logLevel lg = thr
     \<and> w1 = initializeLogFile E lg (w\<lparr>ticks := Suc (ticks w)\<rparr>)"
  by (auto simp: Logger_new_def getDateString_def Let_def)

text \<open>
  Claim C8, as the code has it. When the log directory or the log file cannot be
  created, the constructor reports it with one \<open>console.error\<close> line and nothing else,
  and returns a logger. The file sink is not disabled: \<open>logToFile\<close> stays true, and
  every later call that passes the threshold still issues the append to the log file;
  a rejected append is reported on the console and the call returns.
\<close>

theorem file_sink_failure_absorbed:
  assumes "Logger_new E thr True w = (lg, w1)" and "init_error E lg = Some m"
  shows "trace w1 = trace w @ EnsureDir (logDir lg)
             # (if ensureDir_err E (logDir lg) = None then [EnsureFile (logFile lg)] else [])
             @ [ConsoleError (''Failed to initialize log file: '' @ m)]
    \<and> logToFile lg
    \<and> (shouldLog lg level \<longrightarrow>
         trace (log E lg level message w2) =
           trace w2 @ [ConsoleLog (console_line E (ticks w2) level message),
                       AppendFile (logFile lg) (file_line E (ticks w2) level message)]
             @ (case appendFile_err E (logFile lg) of None \<Rightarrow> []
                | Some e \<Rightarrow> [ConsoleError (''Failed to write to log file: '' @ e)]))"
proof -
  note n = Logger_new_True [OF assms(1)]
  have t: "trace w1 = trace w @ EnsureDir (logDir lg)
             # (if ensureDir_err E (logDir lg) = None then [EnsureFile (logFile lg)] else [])
             @ [ConsoleError (''Failed to initialize log file: '' @ m)]"
    using assms(2) n
    by (auto simp: init_error_def initializeLogFile_def fs_ensureDir_def fs_ensureFile_def
        console_error2_def emit_def add_path_def split: option.splits)
  show ?thesis using t n log_passes [of lg level E message w2] by blast
qed

theorem file_sink_failure_absorbed_witness:
  "trace (snd (Logger_new locked_env ''info'' True start)) =
     [EnsureDir ''/app/logs'',
      ConsoleError ''Failed to initialize log file: EACCES: permission denied'']
   \<and> logToFile (fst (Logger_new locked_env ''info'' True start))"
proof -
  have a: "Logger_new locked_env ''info'' True start =
             (demo_logger ''info'', snd (Logger_new locked_env ''info'' True start))"
    by (simp add: Logger_new_def locked_env_def demo_env_def demo_logger_def getDateString_def
        start_def Let_def path_join_def path_normalize_def digits.simps digit_char_def)
  have b: "init_error locked_env (demo_logger ''info'') = Some ''EACCES: permission denied''"
    by (simp add: init_error_def locked_env_def demo_env_def demo_logger_def)
  have c: "fst (Logger_new locked_env ''info'' True start) = demo_logger ''info''"
    by (simp add: Logger_new_def locked_env_def demo_env_def demo_logger_def getDateString_def
        start_def Let_def path_join_def path_normalize_def digits.simps digit_char_def)
  have "trace (snd (Logger_new locked_env ''info'' True start)) =
          trace start @ EnsureDir (logDir (demo_logger ''info''))
             # (if ensureDir_err locked_env (logDir (demo_logger ''info'')) = None
                then [EnsureFile (logFile (demo_logger ''info''))] else [])
             @ [ConsoleError (''Failed to initialize log file: '' @ ''EACCES: permission denied'')]
         \<and> logToFile (demo_logger ''info'')"
    using file_sink_failure_absorbed [OF a b, of "''info''" "''x''" start] by blast
  then show ?thesis
    unfolding c by (simp add: start_def demo_logger_def locked_env_def demo_env_def)
qed

text \<open>
  Claim C8 as the specification states it fails: on a machine where the log directory
  cannot be created, the logger built by the constructor still appends to the log file
  when \<open>error\<close> is called afterwards.
\<close>

theorem file_sink_disabled_counterexample:
  "init_error locked_env (fst (Logger_new locked_env ''info'' True start))
     = Some ''EACCES: permission denied''
   \<and> AppendFile ''/app/logs/mp3-cover-art-2024-05-17.log''
        ''[2024-05-17T10:00:11.000Z] [ERROR] disk full\<newline>''
       \<in> set (trace (error locked_env (fst (Logger_new locked_env ''info'' True start))
                  ''disk full'' (snd (Logger_new locked_env ''info'' True start))))"
  by (simp add: Logger_new_def locked_env_def demo_env_def getDateString_def init_error_def
        start_def Let_def path_join_def path_normalize_def digits.simps digit_char_def
        initializeLogFile_def fs_ensureDir_def console_error2_def error_def sink_defs shouldLog_def
        logLevels_def toUpperCase_def upper_char_def)

section \<open>Properties of discovery and of the availability probe\<close>

lemma settle_simps [simp]:
  "settle new Pending = new"
  "settle new (Fulfilled x) = Fulfilled x"
  "settle new (Rejected m) = Rejected m"
  by (simp_all add: settle_def)

lemma find_settling_cases:
  "find is_settling evs = None \<or> (\<exists>code. find is_settling evs = Some (CloseEv code))
     \<or> (\<exists>m. find is_settling evs = Some (ErrorEv m))"
proof (cases "find is_settling evs")
  case None
  then show ?thesis by simp
next
  case (Some e)
  then have "is_settling e" by (auto simp: find_Some_iff)
  with Some show ?thesis by (cases e) auto
qed

lemma foldl_on_probe_event:
  "foldl on_probe_event p evs =
     (if p \<noteq> Pending then p
      else (case find is_settling evs of
              None \<Rightarrow> Pending
            | Some (CloseEv code) \<Rightarrow> Fulfilled (code = Some 0)
            | Some _ \<Rightarrow> Fulfilled False))"
proof (induction evs arbitrary: p)
  case Nil
  then show ?case by simp
next
  case (Cons ev evs)
  show ?case by (cases ev; cases p) (simp_all add: Cons.IH)
qed

text \<open>
  Claim C9. The probe answers \<open>true\<close> exactly when the spawned \<open>ffmpeg -version\<close>
  starts and exits with code 0; it answers \<open>false\<close> when the process cannot be
  started or ends with any other exit status; its promise is never rejected.
\<close>

theorem probe_true_iff_exit_zero:
  "(child_succeeded (fst (spawn_res E ''ffmpeg'' [''-version''] (paths w)))
      \<longrightarrow> fst (validateFFmpeg E w) = Fulfilled True)
   \<and> (child_failed (fst (spawn_res E ''ffmpeg'' [''-version''] (paths w)))
      \<longrightarrow> fst (validateFFmpeg E w) = Fulfilled False)
   \<and> (fst (validateFFmpeg E w) = Fulfilled True
      \<longrightarrow> child_succeeded (fst (spawn_res E ''ffmpeg'' [''-version''] (paths w))))
   \<and> (\<forall>m. fst (validateFFmpeg E w) \<noteq> Rejected m)"
proof -
  obtain evs ps where sp: "spawn_res E ''ffmpeg'' [''-version''] (paths w) = (evs, ps)" by force
  have r: "fst (validateFFmpeg E w) = foldl on_probe_event Pending evs"
    by (simp add: validateFFmpeg_def sp Let_def)
  show ?thesis
    using find_settling_cases [of evs]
    by (auto simp: r sp foldl_on_probe_event child_succeeded_def child_failed_def
        first_settling_def)
qed

theorem probe_true_iff_exit_zero_witness:
  "fst (validateFFmpeg (demo_env [] [] None) start) = Fulfilled True
   \<and> child_succeeded (fst (spawn_res (demo_env [] [] None) ''ffmpeg'' [''-version''] (paths start)))"
  using probe_true_iff_exit_zero [of "demo_env [] [] None" start]
  by (simp add: demo_env_def child_succeeded_def first_settling_def)

text \<open>
  Claim C5. For a folder whose entries are exactly \<open>a.mp3\<close>, \<open>b.MP3\<close>, \<open>c.wav\<close> and
  \<open>d.txt\<close>, in whatever order the directory lists them, discovery returns the paths of
  \<open>a.mp3\<close> and \<open>b.MP3\<close>, each once, and nothing else.
\<close>

theorem discovery_filters_by_extension:
  assumes "readdir_res E folderPath = Inr names"
    and "distinct names"
    and "set names = {''a.mp3'', ''b.MP3'', ''c.wav'', ''d.txt''}"
  shows "\<exists>sel. fst (getMp3Files E lg folderPath w)
                  = Inr (map (\<lambda>file. path_join [folderPath, file]) sel)
           \<and> set sel = {''a.mp3'', ''b.MP3''} \<and> distinct sel \<and> length sel = 2"
proof -
  define sel where "sel = filter (\<lambda>file. toLowerCase (extname file) = ''.mp3'') names"
  have ext: "toLowerCase (extname ''a.mp3'') = ''.mp3''"
    "toLowerCase (extname ''b.MP3'') = ''.mp3''"
    "toLowerCase (extname ''c.wav'') \<noteq> ''.mp3''"
    "toLowerCase (extname ''d.txt'') \<noteq> ''.mp3''"
    by (simp_all add: extname_def basename_def toLowerCase_def lower_char_def Let_def)
  have s: "set sel = {''a.mp3'', ''b.MP3''}"
    unfolding sel_def using assms(3) ext by auto
  have d: "distinct sel" unfolding sel_def using assms(2) by simp
  have "card (set sel) = 2" unfolding s by simp
  then have l: "length sel = 2" using d distinct_card by fastforce
  have "fst (getMp3Files E lg folderPath w) = Inr (map (\<lambda>file. path_join [folderPath, file]) sel)"
    by (simp add: getMp3Files_def fs_readdir_def assms(1) sel_def Let_def)
  then show ?thesis using s d l by blast
qed

theorem discovery_filters_by_extension_witness:
  "\<exists>sel. fst (getMp3Files (demo_env [''d.txt'', ''b.MP3'', ''a.mp3'', ''c.wav''] [] None)
               (demo_logger ''info'') ''/in'' start)
            = Inr (map (\<lambda>file. path_join [''/in'', file]) sel)
         \<and> set sel = {''a.mp3'', ''b.MP3''} \<and> distinct sel \<and> length sel = 2"
proof -
  have a: "readdir_res (demo_env [''d.txt'', ''b.MP3'', ''a.mp3'', ''c.wav''] [] None) ''/in''
             = Inr [''d.txt'', ''b.MP3'', ''a.mp3'', ''c.wav'']"
    by (simp add: demo_env_def)
  have b: "distinct [''d.txt'', ''b.MP3'', ''a.mp3'', ''c.wav'']" by simp
  have c: "set [''d.txt'', ''b.MP3'', ''a.mp3'', ''c.wav'']
             = {''a.mp3'', ''b.MP3'', ''c.wav'', ''d.txt''}" by auto
  show ?thesis
    using discovery_filters_by_extension [OF a b c, of "demo_logger ''info''" start] .
qed

section \<open>Properties of the batch\<close>

lemma log_filter:
  assumes "\<forall>e. is_sink_event e \<longrightarrow> \<not> p e"
  shows "filter p (trace (log E lg level message w)) = filter p (trace w)"
  using assms by (simp add: sink_defs Let_def split: option.splits)

lemma log_paths_mono: "set (paths w) \<subseteq> set (paths (log E lg level message w))"
  by (auto simp add: sink_defs Let_def split: option.splits)

lemma log_paths_upper:
  "set (paths (log E lg level message w)) \<subseteq> insert (logFile lg) (set (paths w))"
  by (auto simp add: sink_defs Let_def split: option.splits)

lemma sink_free [simp]:
  "\<forall>e. is_sink_event e \<longrightarrow> \<not> is_skip e"
  "\<forall>e. is_sink_event e \<longrightarrow> \<not> is_spawn e"
  "\<forall>e. is_sink_event e \<longrightarrow> \<not> is_conversion_ok e"
  "\<forall>e. is_sink_event e \<longrightarrow> \<not> is_conversion_failed e"
proof -
  show "\<forall>e. is_sink_event e \<longrightarrow> \<not> is_skip e"
  proof (intro allI impI)
    fix e assume "is_sink_event e" then show "\<not> is_skip e" by (cases e) simp_all
  qed
  show "\<forall>e. is_sink_event e \<longrightarrow> \<not> is_spawn e"
  proof (intro allI impI)
    fix e assume "is_sink_event e" then show "\<not> is_spawn e" by (cases e) simp_all
  qed
  show "\<forall>e. is_sink_event e \<longrightarrow> \<not> is_conversion_ok e"
  proof (intro allI impI)
    fix e assume "is_sink_event e" then show "\<not> is_conversion_ok e" by (cases e) simp_all
  qed
  show "\<forall>e. is_sink_event e \<longrightarrow> \<not> is_conversion_failed e"
  proof (intro allI impI)
    fix e assume "is_sink_event e" then show "\<not> is_conversion_failed e" by (cases e) simp_all
  qed
qed

lemma count_ev_log [simp]:
  assumes "\<forall>e. is_sink_event e \<longrightarrow> \<not> p e"
  shows "count_ev p (log E lg level message w) = count_ev p w"
  by (simp add: count_ev_def log_filter [OF assms])

lemma count_ev_emit [simp]: "count_ev p (emit e w) = count_ev p w + (if p e then 1 else 0)"
  by (simp add: count_ev_def emit_def)

lemma count_ev_add_path [simp]: "count_ev p (add_path q w) = count_ev p w"
  by (simp add: count_ev_def add_path_def)

lemma conversion_result_Fulfilled:
  "conversion_result (first_settling evs) = Fulfilled u \<longleftrightarrow> child_succeeded evs"
  using find_settling_cases [of evs]
  by (auto simp: first_settling_def child_succeeded_def split: if_splits)

lemma conversion_result_Rejected:
  "(\<exists>m. conversion_result (first_settling evs) = Rejected m) \<longleftrightarrow> child_failed evs"
  using find_settling_cases [of evs]
  by (auto simp: first_settling_def child_failed_def split: if_splits)

lemma conversion_result_Pending:
  "conversion_result (first_settling evs) = Pending \<longleftrightarrow> first_settling evs = None"
  using find_settling_cases [of evs] by (auto simp: first_settling_def split: if_splits)

lemma child_outcomes_exclusive: "\<not> (child_succeeded evs \<and> child_failed evs)"
  by (auto simp: child_succeeded_def child_failed_def)

lemma on_event_settled:
  "settled (fst (on_event E lg i out (c, w) ev)) =
     (if settled c \<noteq> Pending then settled c else conversion_result (find is_settling [ev]))"
  by (cases ev) (auto simp: settle_def Let_def split: promise.splits)

lemma foldl_on_event_settled:
  "settled (fst (foldl (on_event E lg i out) (c, w) evs)) =
     (if settled c \<noteq> Pending then settled c else conversion_result (find is_settling evs))"
proof (induction evs arbitrary: c w)
  case Nil
  then show ?case by simp
next
  case (Cons ev evs)
  obtain c' w' where st: "on_event E lg i out (c, w) ev = (c', w')" by force
  have c': "settled c' =
      (if settled c \<noteq> Pending then settled c else conversion_result (find is_settling [ev]))"
    using on_event_settled [of E lg i out c w ev] st by simp
  show ?case
    using Cons.IH [of c' w'] st c' by (cases ev) (auto split: if_splits)
qed

lemma on_event_filter:
  assumes "\<forall>e. is_sink_event e \<longrightarrow> \<not> p e"
  shows "filter p (trace (snd (on_event E lg i out (c, w) ev))) = filter p (trace w)"
  using assms by (cases ev) (simp_all add: log_filter debug_def info_def error_def Let_def)

lemma foldl_on_event_filter:
  assumes "\<forall>e. is_sink_event e \<longrightarrow> \<not> p e"
  shows "filter p (trace (snd (foldl (on_event E lg i out) (c, w) evs))) = filter p (trace w)"
proof (induction evs arbitrary: c w)
  case Nil
  then show ?case by simp
next
  case (Cons ev evs)
  obtain c' w' where st: "on_event E lg i out (c, w) ev = (c', w')" by force
  have "filter p (trace w') = filter p (trace w)"
    using on_event_filter [of p E lg i out c w ev] assms st by simp
  then show ?case using Cons.IH [of c' w'] st by simp
qed

lemma on_event_paths:
  "set (paths w) \<subseteq> set (paths (snd (on_event E lg i out (c, w) ev)))
   \<and> set (paths (snd (on_event E lg i out (c, w) ev))) \<subseteq> insert (logFile lg) (set (paths w))"
proof -
  have a: "set (paths w) \<subseteq> set (paths (log E lg l m w))" for l m w
    by (rule log_paths_mono)
  have b: "set (paths (log E lg l m w)) \<subseteq> insert (logFile lg) (set (paths w))" for l m w
    by (rule log_paths_upper)
  show ?thesis
    using a b by (cases ev) (simp_all add: debug_def info_def error_def Let_def, blast+)
qed

lemma foldl_on_event_paths:
  "set (paths w) \<subseteq> set (paths (snd (foldl (on_event E lg i out) (c, w) evs)))
   \<and> set (paths (snd (foldl (on_event E lg i out) (c, w) evs)))
       \<subseteq> insert (logFile lg) (set (paths w))"
proof (induction evs arbitrary: c w)
  case Nil
  then show ?case by auto
next
  case (Cons ev evs)
  obtain c' w' where st: "on_event E lg i out (c, w) ev = (c', w')" by force
  have "set (paths w) \<subseteq> set (paths w') \<and> set (paths w') \<subseteq> insert (logFile lg) (set (paths w))"
    using on_event_paths [of w E lg i out c ev] st by simp
  then show ?case using Cons.IH [of w' c'] st by auto
qed

lemma paths_at_spawn_bounds:
  "set (paths w) \<subseteq> set (paths_at_spawn E lg i c out w)"
  "set (paths_at_spawn E lg i c out w) \<subseteq> insert (logFile lg) (set (paths w))"
proof -
  define w1 where "w1 = log E lg ''info'' (''Processing: '' @ basename i) w"
  define w2 where "w2 = log E lg ''info'' (''FFmpeg command: ffmpeg ''
                       @ join_with '' '' (ffmpegArgs i c out)) w1"
  have "set (paths w) \<subseteq> set (paths w1)" "set (paths w1) \<subseteq> set (paths w2)"
    unfolding w1_def w2_def by (rule log_paths_mono)+
  moreover have "set (paths w1) \<subseteq> insert (logFile lg) (set (paths w))"
    "set (paths w2) \<subseteq> insert (logFile lg) (set (paths w1))"
    unfolding w1_def w2_def by (rule log_paths_upper)+
  moreover have "paths_at_spawn E lg i c out w = paths w2"
    by (simp add: paths_at_spawn_def info_def w2_def w1_def)
  ultimately show "set (paths w) \<subseteq> set (paths_at_spawn E lg i c out w)"
    "set (paths_at_spawn E lg i c out w) \<subseteq> insert (logFile lg) (set (paths w))"
    by auto
qed

lemma find_upto_settled: "find is_settling (upto_settled evs) = find is_settling evs"
  by (induction evs rule: upto_settled.induct) simp_all

lemma keep_listening_fields [simp]:
  "trace (keep_listening i out c evs w) = trace w"
  "paths (keep_listening i out c evs w) = paths w"
  "ticks (keep_listening i out c evs w) = ticks w"
  by (simp_all add: keep_listening_def)

lemma applyCoverArt_unfold:
  "applyCoverArt E lg i c out w =
     (let args = ffmpegArgs i c out;
          w2 = info E lg (''FFmpeg command: ffmpeg '' @ join_with '' '' args)
                 (info E lg (''Processing: '' @ basename i) w);
          r = foldl (on_event E lg i out)
                (\<lparr>settled = Pending, stderr = [], stdout = []\<rparr>,
                 emit (Spawn ''ffmpeg'' args (child_of E lg i c out w))
                   (w2\<lparr>paths := paths_after_child E lg i c out w\<rparr>))
                (upto_settled (child_of E lg i c out w))
      in (settled (fst r),
          keep_listening i out (fst r) (after_settled (child_of E lg i c out w)) (snd r)))"
  unfolding applyCoverArt_def child_of_def paths_after_child_def paths_at_spawn_def Let_def
  by (simp split: prod.splits)

lemma applyCoverArt_fst:
  "fst (applyCoverArt E lg i c out w) = conversion_result (first_settling (child_of E lg i c out w))"
  unfolding applyCoverArt_unfold Let_def first_settling_def
  by (simp add: foldl_on_event_settled find_upto_settled)

lemma applyCoverArt_trace:
  assumes "\<forall>e. is_sink_event e \<longrightarrow> \<not> p e"
  shows "filter p (trace (snd (applyCoverArt E lg i c out w))) =
           filter p (trace w) @ filter p [Spawn ''ffmpeg'' (ffmpegArgs i c out) (child_of E lg i c out w)]"
  unfolding applyCoverArt_unfold Let_def
  by (simp add: foldl_on_event_filter [OF assms] emit_def log_filter [OF assms] info_def)

lemma applyCoverArt_paths:
  "set (paths_after_child E lg i c out w) \<subseteq> set (paths (snd (applyCoverArt E lg i c out w)))"
  "set (paths (snd (applyCoverArt E lg i c out w)))
     \<subseteq> insert (logFile lg) (set (paths_after_child E lg i c out w))"
  unfolding applyCoverArt_unfold Let_def
  using foldl_on_event_paths [of "emit (Spawn ''ffmpeg'' (ffmpegArgs i c out) (child_of E lg i c out w))
                   ((info E lg (''FFmpeg command: ffmpeg '' @ join_with '' '' (ffmpegArgs i c out))
                 (info E lg (''Processing: '' @ basename i) w))\<lparr>paths := paths_after_child E lg i c out w\<rparr>)" E lg i out
         "\<lparr>settled = Pending, stderr = [], stdout = []\<rparr>" "upto_settled (child_of E lg i c out w)"]
  by (simp_all add: emit_def)

text \<open>
  A failed spawn delivers \<open>error\<close> and then \<open>close\<close>: the promise is rejected by the
  first, and the second stays with the listeners.
\<close>

lemma spawn_failure_close_is_late:
  "upto_settled [ErrorEv m, CloseEv code] = [ErrorEv m]"
  "after_settled [ErrorEv m, CloseEv code] = [CloseEv code]"
  by (simp_all add: after_settled_def)

lemma log_late [simp]: "late (log E lg level message w) = late w"
  by (simp add: sink_defs Let_def split: option.splits)

lemma on_event_late: "late (snd (on_event E lg i out (c, w) ev)) = late w"
  by (cases ev) (simp_all add: debug_def info_def error_def Let_def)

lemma foldl_on_event_late: "late (snd (foldl (on_event E lg i out) (c, w) evs)) = late w"
proof (induction evs arbitrary: c w)
  case Nil
  then show ?case by simp
next
  case (Cons ev evs)
  obtain c' w' where st: "on_event E lg i out (c, w) ev = (c', w')" by force
  have "late w' = late w" using on_event_late [of E lg i out c w ev] st by simp
  then show ?case using Cons.IH [of c' w'] st by simp
qed

lemma applyCoverArt_late:
  "map u_events (late (snd (applyCoverArt E lg i c out w))) =
     map u_events (late w)
       @ (if after_settled (child_of E lg i c out w) = [] then []
          else [after_settled (child_of E lg i c out w)])"
  unfolding applyCoverArt_unfold Let_def
  by (simp add: keep_listening_def foldl_on_event_late emit_def info_def)

lemma process_files_step:
  "process_files E lg c outF (i # rest) (s, f) w =
     (if destination outF i \<in> set (paths w)
        then process_files E lg c outF rest (s, f) (next_world E lg c outF i w)
      else if child_succeeded (candidate_child E lg c outF i w)
        then process_files E lg c outF rest (s + 1, f) (next_world E lg c outF i w)
      else if child_failed (candidate_child E lg c outF i w)
        then process_files E lg c outF rest (s, f + 1) (next_world E lg c outF i w)
      else (None, next_world E lg c outF i w))"
proof (cases "destination outF i \<in> set (paths w)")
  case True
  then show ?thesis
    by (simp add: next_world_def destination_def fs_pathExists_def Let_def)
next
  case False
  define d where "d = destination outF i"
  define w1 where "w1 = emit (PathExists d False) w"
  define r where "r = applyCoverArt E lg i c d w1"
  have unfold: "process_files E lg c outF (i # rest) (s, f) w =
      (case r of
         (Fulfilled u, w2) \<Rightarrow> process_files E lg c outF rest (s + 1, f) w2
       | (Rejected m, w2) \<Rightarrow>
           process_files E lg c outF rest (s, f + 1)
             (error E lg (''Failed to process '' @ basename i @ '': '' @ m) w2)
       | (Pending, w2) \<Rightarrow> (None, w2))"
    using False unfolding r_def d_def w1_def
    by (simp add: destination_def fs_pathExists_def Let_def)
  have nw: "next_world E lg c outF i w =
      (case r of (Rejected m, w2) \<Rightarrow> error E lg (''Failed to process '' @ basename i @ '': '' @ m) w2
       | (_, w2) \<Rightarrow> w2)"
    using False unfolding r_def d_def w1_def by (simp add: next_world_def)
  have fr: "fst r = conversion_result (first_settling (candidate_child E lg c outF i w))"
    unfolding r_def w1_def d_def candidate_child_def by (rule applyCoverArt_fst)
  obtain pr w2 where r: "r = (pr, w2)" by force
  show ?thesis
  proof (cases pr)
    case Pending
    then have "\<not> child_succeeded (candidate_child E lg c outF i w)"
      "\<not> child_failed (candidate_child E lg c outF i w)"
      using fr r conversion_result_Fulfilled [of "candidate_child E lg c outF i w"]
        conversion_result_Rejected [of "candidate_child E lg c outF i w"] by auto
    then show ?thesis unfolding unfold nw r using False Pending by simp
  next
    case (Fulfilled u)
    then have "child_succeeded (candidate_child E lg c outF i w)"
      using fr r conversion_result_Fulfilled [of "candidate_child E lg c outF i w"] by auto
    then show ?thesis unfolding unfold nw r using False Fulfilled by simp
  next
    case (Rejected m)
    then have "conversion_result (first_settling (candidate_child E lg c outF i w)) = Rejected m"
      using fr r by simp
    then have "child_failed (candidate_child E lg c outF i w)"
      "\<not> child_succeeded (candidate_child E lg c outF i w)"
      using conversion_result_Rejected [of "candidate_child E lg c outF i w"]
        child_outcomes_exclusive [of "candidate_child E lg c outF i w"] by blast+
    then show ?thesis unfolding unfold nw r using False Rejected by simp
  qed
qed

lemma next_world_trace:
  assumes "\<forall>e. is_sink_event e \<longrightarrow> \<not> p e"
  shows "filter p (trace (next_world E lg c outF i w)) =
     filter p (trace w)
       @ filter p (if destination outF i \<in> set (paths w)
                   then [PathExists (destination outF i) True]
                   else [PathExists (destination outF i) False,
                         Spawn ''ffmpeg'' (ffmpegArgs i c (destination outF i))
                           (candidate_child E lg c outF i w)])"
proof (cases "destination outF i \<in> set (paths w)")
  case True
  then show ?thesis
    by (simp add: next_world_def warn_def log_filter [OF assms] emit_def)
next
  case False
  define d where "d = destination outF i"
  define w1 where "w1 = emit (PathExists d False) w"
  define r where "r = applyCoverArt E lg i c d w1"
  have nw: "next_world E lg c outF i w =
      (case r of (Rejected m, w2) \<Rightarrow> error E lg (''Failed to process '' @ basename i @ '': '' @ m) w2
       | (_, w2) \<Rightarrow> w2)"
    using False unfolding r_def d_def w1_def by (simp add: next_world_def)
  have "filter p (trace (next_world E lg c outF i w)) = filter p (trace (snd r))"
    unfolding nw by (cases r; cases "fst r") (auto simp: error_def log_filter [OF assms])
  also have "\<dots> = filter p (trace w1) @ filter p [Spawn ''ffmpeg'' (ffmpegArgs i c d) (child_of E lg i c d w1)]"
    unfolding r_def by (rule applyCoverArt_trace [OF assms])
  finally show ?thesis
    using False unfolding w1_def d_def candidate_child_def by (simp add: emit_def)
qed

lemma next_world_paths_skip:
  assumes "destination outF i \<in> set (paths w)"
  shows "set (paths w) \<subseteq> set (paths (next_world E lg c outF i w))"
    "set (paths (next_world E lg c outF i w)) \<subseteq> insert (logFile lg) (set (paths w))"
proof -
  have "next_world E lg c outF i w = log E lg ''warn'' (''Output file already exists, skipping: '' @ basename i)
          (emit (PathExists (destination outF i) True) w)"
    using assms by (simp add: next_world_def warn_def)
  moreover have "paths (emit (PathExists (destination outF i) True) w) = paths w"
    by (simp add: emit_def)
  ultimately show "set (paths w) \<subseteq> set (paths (next_world E lg c outF i w))"
    "set (paths (next_world E lg c outF i w)) \<subseteq> insert (logFile lg) (set (paths w))"
    using log_paths_mono [of "emit (PathExists (destination outF i) True) w" E lg]
      log_paths_upper [of E lg _ _ "emit (PathExists (destination outF i) True) w"] by auto
qed

lemma next_world_paths_fresh:
  assumes "destination outF i \<notin> set (paths w)"
  shows "\<exists>ps. set (paths w) \<subseteq> set ps \<and> set ps \<subseteq> insert (logFile lg) (set (paths w))
           \<and> candidate_child E lg c outF i w
               = fst (spawn_res E ''ffmpeg'' (ffmpegArgs i c (destination outF i)) ps)
           \<and> set (snd (spawn_res E ''ffmpeg'' (ffmpegArgs i c (destination outF i)) ps))
               \<subseteq> set (paths (next_world E lg c outF i w))
           \<and> set (paths (next_world E lg c outF i w))
               \<subseteq> insert (logFile lg)
                    (set (snd (spawn_res E ''ffmpeg'' (ffmpegArgs i c (destination outF i)) ps)))"
proof -
  define d where "d = destination outF i"
  define w1 where "w1 = emit (PathExists d False) w"
  define r where "r = applyCoverArt E lg i c d w1"
  define ps where "ps = paths_at_spawn E lg i c d w1"
  have pw1: "paths w1 = paths w" by (simp add: w1_def emit_def)
  have nw: "next_world E lg c outF i w =
      (case r of (Rejected m, w2) \<Rightarrow> error E lg (''Failed to process '' @ basename i @ '': '' @ m) w2
       | (_, w2) \<Rightarrow> w2)"
    using assms unfolding r_def d_def w1_def by (simp add: next_world_def)
  have n1: "set (paths (snd r)) \<subseteq> set (paths (next_world E lg c outF i w))"
    unfolding nw using log_paths_mono [of "snd r" E lg]
    by (cases r; cases "fst r") (auto simp: error_def)
  have n2: "set (paths (next_world E lg c outF i w)) \<subseteq> insert (logFile lg) (set (paths (snd r)))"
    unfolding nw using log_paths_upper [of E lg _ _ "snd r"]
    by (cases r; cases "fst r") (auto simp: error_def)
  have a: "set (paths w) \<subseteq> set ps" "set ps \<subseteq> insert (logFile lg) (set (paths w))"
    unfolding ps_def using paths_at_spawn_bounds [where w = w1 and E = E and lg = lg and i = i and c = c and out = d] pw1 by auto
  have ch: "candidate_child E lg c outF i w = fst (spawn_res E ''ffmpeg'' (ffmpegArgs i c d) ps)"
    by (simp add: candidate_child_def child_of_def ps_def d_def w1_def)
  have pa: "paths_after_child E lg i c d w1 = snd (spawn_res E ''ffmpeg'' (ffmpegArgs i c d) ps)"
    by (simp add: paths_after_child_def ps_def)
  have b: "set (snd (spawn_res E ''ffmpeg'' (ffmpegArgs i c d) ps)) \<subseteq> set (paths (snd r))"
    "set (paths (snd r)) \<subseteq> insert (logFile lg) (set (snd (spawn_res E ''ffmpeg'' (ffmpegArgs i c d) ps)))"
    unfolding r_def using applyCoverArt_paths [where w = w1 and E = E and lg = lg and i = i and c = c and out = d] pa by auto
  have "set (snd (spawn_res E ''ffmpeg'' (ffmpegArgs i c d) ps))
          \<subseteq> set (paths (next_world E lg c outF i w))"
    using b(1) n1 by blast
  moreover have "set (paths (next_world E lg c outF i w))
      \<subseteq> insert (logFile lg) (set (snd (spawn_res E ''ffmpeg'' (ffmpegArgs i c d) ps)))"
    using b(2) n2 by blast
  ultimately show ?thesis
    using a ch unfolding d_def by blast
qed

declare process_files.simps [simp del]

lemma count_ev_next_world:
  assumes "\<forall>e. is_sink_event e \<longrightarrow> \<not> p e"
  shows "count_ev p (next_world E lg c outF i w) =
     count_ev p w
       + int (length (filter p (if destination outF i \<in> set (paths w)
                   then [PathExists (destination outF i) True]
                   else [PathExists (destination outF i) False,
                         Spawn ''ffmpeg'' (ffmpegArgs i c (destination outF i))
                           (candidate_child E lg c outF i w)])))"
  unfolding count_ev_def next_world_trace [OF assms] by simp

lemma process_files_counts:
  "process_files E lg c outF files (s, f) w = (Some (s', f'), w') \<Longrightarrow>
     s \<le> s' \<and> f \<le> f' \<and> (s' - s) + (f' - f) \<le> int (length files)
     \<and> count_ev is_skip w' = count_ev is_skip w + (int (length files) - (s' - s) - (f' - f))
     \<and> count_ev is_conversion_ok w' = count_ev is_conversion_ok w + (s' - s)
     \<and> count_ev is_conversion_failed w' = count_ev is_conversion_failed w + (f' - f)
     \<and> count_ev is_spawn w' = count_ev is_spawn w + (s' - s) + (f' - f)"
proof (induction files arbitrary: s f w)
  case Nil
  then show ?case by (simp add: process_files.simps)
next
  case (Cons i rest)
  define wn where "wn = next_world E lg c outF i w"
  define ch where "ch = candidate_child E lg c outF i w"
  note step = process_files_step [of E lg c outF i rest s f w, folded wn_def ch_def]
  note cnt = count_ev_next_world [of _ E lg c outF i w, folded wn_def ch_def]
  show ?case
  proof (cases "destination outF i \<in> set (paths w)")
    case True
    then have "process_files E lg c outF rest (s, f) wn = (Some (s', f'), w')"
      using Cons.prems step by simp
    from Cons.IH [OF this] show ?thesis
      using True cnt [of is_skip] cnt [of is_conversion_ok] cnt [of is_conversion_failed]
        cnt [of is_spawn] by simp
  next
    case False
    show ?thesis
    proof (cases "child_succeeded ch")
      case True
      then have nf: "\<not> child_failed ch" using child_outcomes_exclusive by blast
      have "process_files E lg c outF rest (s + 1, f) wn = (Some (s', f'), w')"
        using Cons.prems step False True by simp
      from Cons.IH [OF this] show ?thesis
        using False True nf cnt [of is_skip] cnt [of is_conversion_ok] cnt [of is_conversion_failed]
          cnt [of is_spawn] by simp
    next
      case ns: False
      show ?thesis
      proof (cases "child_failed ch")
        case True
        have "process_files E lg c outF rest (s, f + 1) wn = (Some (s', f'), w')"
          using Cons.prems step False True ns by simp
        from Cons.IH [OF this] show ?thesis
          using False True ns cnt [of is_skip] cnt [of is_conversion_ok] cnt [of is_conversion_failed]
            cnt [of is_spawn] by simp
      next
        case nf: False
        then show ?thesis using Cons.prems step False ns by simp
      qed
    qed
  qed
qed

lemma getMp3Files_ok:
  assumes "readdir_res E inF = Inr names"
  shows "getMp3Files E lg inF w =
           (Inr (candidates inF names),
            info E lg (''Found '' @ show_int (int (length (filter is_mp3 names))) @ '' MP3 files in '' @ inF)
              (emit (ReadDir inF) w))"
  using assms
  by (simp add: getMp3Files_def fs_readdir_def candidates_def is_mp3_def [abs_def] Let_def)

lemma getMp3Files_err:
  assumes "readdir_res E inF = Inl m"
  shows "fst (getMp3Files E lg inF w) = Inl (''Failed to read directory '' @ inF @ '': '' @ m)"
  using assms by (simp add: getMp3Files_def fs_readdir_def)

lemma processFolder_batch:
  assumes "readdir_res E inF = Inr names" "filter is_mp3 names \<noteq> []" "ensureDir_err E outF = None"
  shows "processFolder E lg inF c outF w =
     (case process_files E lg c outF (candidates inF names) (0, 0)
             (batch_start E lg inF outF (length (filter is_mp3 names)) w) of
        (None, w4) \<Rightarrow> (Hangs, w4)
      | (Some (s, f), w4) \<Rightarrow>
          (Returns (Some (tally_of (length (filter is_mp3 names)) s f)),
           log_summary E lg (tally_of (length (filter is_mp3 names)) s f) outF w4))"
proof -
  have ne: "candidates inF names \<noteq> []" "length (candidates inF names) = length (filter is_mp3 names)"
    using assms(2) by (simp_all add: candidates_def)
  show ?thesis
    unfolding processFolder_def getMp3Files_ok [OF assms(1)]
    by (simp add: ne assms(2) assms(3) fs_ensureDir_def batch_start_def tally_of_def Let_def
        split: prod.splits option.splits)
qed

lemma processFolder_empty:
  assumes "readdir_res E inF = Inr names" "filter is_mp3 names = []"
  shows "processFolder E lg inF c outF w =
     (Returns None,
      warn E lg ''No MP3 files found in the input folder''
        (info E lg (''Found 0 MP3 files in '' @ inF) (emit (ReadDir inF) w)))"
  unfolding processFolder_def getMp3Files_ok [OF assms(1)]
  using assms(2) by (simp add: candidates_def show_int_def digits.simps digit_char_def)

lemma processFolder_Some:
  assumes "processFolder E lg inF c outF w = (Returns (Some t), w')"
  shows "\<exists>names s f w4. readdir_res E inF = Inr names \<and> filter is_mp3 names \<noteq> []
           \<and> ensureDir_err E outF = None
           \<and> process_files E lg c outF (candidates inF names) (0, 0)
                (batch_start E lg inF outF (length (filter is_mp3 names)) w) = (Some (s, f), w4)
           \<and> t = tally_of (length (filter is_mp3 names)) s f
           \<and> w' = log_summary E lg t outF w4"
proof (cases "readdir_res E inF")
  case (Inl m)
  then show ?thesis
    using assms by (simp add: processFolder_def getMp3Files_def fs_readdir_def)
next
  case (Inr names)
  show ?thesis
  proof (cases "filter is_mp3 names = []")
    case True
    then show ?thesis using assms processFolder_empty [OF Inr True] by simp
  next
    case False
    show ?thesis
    proof (cases "ensureDir_err E outF")
      case (Some m)
      then show ?thesis
        using assms False unfolding processFolder_def getMp3Files_ok [OF Inr]
        by (simp add: fs_ensureDir_def candidates_def)
    next
      case None
      then show ?thesis
        using assms Inr False unfolding processFolder_batch [OF Inr False None]
        by (auto split: prod.splits option.splits)
    qed
  qed
qed

lemma batch_start_trace:
  assumes "\<forall>e. is_sink_event e \<longrightarrow> \<not> p e"
  shows "filter p (trace (batch_start E lg inF outF n w)) =
           filter p (trace w) @ filter p [ReadDir inF, EnsureDir outF]"
  by (simp add: batch_start_def info_def log_filter [OF assms] add_path_def emit_def)

lemma batch_start_paths:
  "set (paths w) \<subseteq> set (paths (batch_start E lg inF outF n w))"
  "set (paths (batch_start E lg inF outF n w)) \<subseteq> insert (logFile lg) (insert outF (set (paths w)))"
proof -
  define w1 where "w1 = log E lg ''info'' (''Found '' @ show_int (int n) @ '' MP3 files in '' @ inF)
             (emit (ReadDir inF) w)"
  define w2 where "w2 = add_path outF (emit (EnsureDir outF) w1)"
  have b: "batch_start E lg inF outF n w =
      log E lg ''info'' (''Starting to process '' @ show_int (int n) @ '' MP3 files...'') w2"
    by (simp add: batch_start_def info_def w2_def w1_def)
  have p0: "paths (emit (ReadDir inF) w) = paths w" by (simp add: emit_def)
  have p1: "set (paths w) \<subseteq> set (paths w1)" "set (paths w1) \<subseteq> insert (logFile lg) (set (paths w))"
    unfolding w1_def
    using log_paths_mono [of "emit (ReadDir inF) w" E lg] log_paths_upper [of E lg _ _ "emit (ReadDir inF) w"] p0
    by auto
  have p2: "set (paths w2) = insert outF (set (paths w1))"
    by (auto simp: w2_def add_path_def emit_def)
  have p3: "set (paths w2) \<subseteq> set (paths (batch_start E lg inF outF n w))"
    "set (paths (batch_start E lg inF outF n w)) \<subseteq> insert (logFile lg) (set (paths w2))"
    unfolding b using log_paths_mono [of w2 E lg] log_paths_upper [of E lg _ _ w2] by auto
  show "set (paths w) \<subseteq> set (paths (batch_start E lg inF outF n w))"
    using p1 p2 p3 by blast
  show "set (paths (batch_start E lg inF outF n w)) \<subseteq> insert (logFile lg) (insert outF (set (paths w)))"
    using p1 p2 p3 by blast
qed

lemma log_summary_trace:
  assumes "\<forall>e. is_sink_event e \<longrightarrow> \<not> p e"
  shows "filter p (trace (log_summary E lg t outF w)) = filter p (trace w)"
  by (simp add: log_summary_def info_def log_filter [OF assms] Let_def)

lemma log_summary_paths:
  "set (paths w) \<subseteq> set (paths (log_summary E lg t outF w))"
  "set (paths (log_summary E lg t outF w)) \<subseteq> insert (logFile lg) (set (paths w))"
proof -
  have m: "set (paths v) \<subseteq> set (paths (info E lg m v))" for m v
    unfolding info_def by (rule log_paths_mono)
  have u: "set (paths (info E lg m v)) \<subseteq> insert (logFile lg) (set (paths v))" for m v
    unfolding info_def by (rule log_paths_upper)
  define w1 where "w1 = info E lg (CHR 0x0A # ''=== Processing Summary ==='') w"
  define w2 where "w2 = info E lg (''Total files: '' @ show_int (totalDiscovered t)) w1"
  define w3 where "w3 = info E lg (''Successful: '' @ show_int (succeeded t)) w2"
  define w4 where "w4 = info E lg (''Failed: '' @ show_int (failed t)) w3"
  define w5 where "w5 = info E lg (''Skipped: '' @ show_int (skipped t)) w4"
  define w6 where "w6 = info E lg (check_mark @ '' All processed files saved to: '' @ outF) w5"
  have ls: "log_summary E lg t outF w = (if succeeded t > 0 then w6 else w5)"
    by (simp add: log_summary_def Let_def w1_def w2_def w3_def w4_def w5_def w6_def)
  have s1: "set (paths w) \<subseteq> set (paths w1)" unfolding w1_def by (rule m)
  have s2: "set (paths w1) \<subseteq> set (paths w2)" unfolding w2_def by (rule m)
  have s3: "set (paths w2) \<subseteq> set (paths w3)" unfolding w3_def by (rule m)
  have s4: "set (paths w3) \<subseteq> set (paths w4)" unfolding w4_def by (rule m)
  have s5: "set (paths w4) \<subseteq> set (paths w5)" unfolding w5_def by (rule m)
  have s6: "set (paths w5) \<subseteq> set (paths w6)" unfolding w6_def by (rule m)
  have u1: "set (paths w1) \<subseteq> insert (logFile lg) (set (paths w))" unfolding w1_def by (rule u)
  have u2: "set (paths w2) \<subseteq> insert (logFile lg) (set (paths w1))" unfolding w2_def by (rule u)
  have u3: "set (paths w3) \<subseteq> insert (logFile lg) (set (paths w2))" unfolding w3_def by (rule u)
  have u4: "set (paths w4) \<subseteq> insert (logFile lg) (set (paths w3))" unfolding w4_def by (rule u)
  have u5: "set (paths w5) \<subseteq> insert (logFile lg) (set (paths w4))" unfolding w5_def by (rule u)
  have u6: "set (paths w6) \<subseteq> insert (logFile lg) (set (paths w5))" unfolding w6_def by (rule u)
  have up: "set (paths w) \<subseteq> set (paths w5)" "set (paths w) \<subseteq> set (paths w6)"
    using s1 s2 s3 s4 s5 s6 by blast+
  have dn: "set (paths w5) \<subseteq> insert (logFile lg) (set (paths w))"
    "set (paths w6) \<subseteq> insert (logFile lg) (set (paths w))"
    using u1 u2 u3 u4 u5 u6 by blast+
  show "set (paths w) \<subseteq> set (paths (log_summary E lg t outF w))"
    unfolding ls using up by auto
  show "set (paths (log_summary E lg t outF w)) \<subseteq> insert (logFile lg) (set (paths w))"
    unfolding ls using dn by auto
qed

lemma settled_child: "first_settling evs \<noteq> None \<Longrightarrow> child_succeeded evs \<or> child_failed evs"
  using find_settling_cases [of evs]
  by (auto simp: first_settling_def child_succeeded_def child_failed_def)

lemma candidate_child_spawned:
  "\<exists>ps. candidate_child E lg c outF i w
          = fst (spawn_res E ''ffmpeg'' (ffmpegArgs i c (destination outF i)) ps)"
  unfolding candidate_child_def child_of_def by blast

lemma process_files_returns:
  assumes "\<forall>args ps. first_settling (fst (spawn_res E ''ffmpeg'' args ps)) \<noteq> None"
  shows "\<exists>s' f' w'. process_files E lg c outF files (s, f) w = (Some (s', f'), w')"
proof (induction files arbitrary: s f w)
  case Nil
  then show ?case by (simp add: process_files.simps)
next
  case (Cons i rest)
  have "child_succeeded (candidate_child E lg c outF i w) \<or> child_failed (candidate_child E lg c outF i w)"
    using candidate_child_spawned [of E lg c outF i w] assms settled_child by metis
  then show ?case
    unfolding process_files_step [of E lg c outF i rest s f w]
    using Cons.IH by auto
qed

lemma count_ev_batch:
  assumes "\<forall>e. is_sink_event e \<longrightarrow> \<not> p e" "\<not> p (ReadDir inF)" "\<not> p (EnsureDir outF)"
  shows "count_ev p (batch_start E lg inF outF n w) = count_ev p w"
    "count_ev p (log_summary E lg t outF w) = count_ev p w"
  using assms(2,3) by (simp_all add: count_ev_def batch_start_trace [OF assms(1)] log_summary_trace [OF assms(1)])

lemma demo_settles:
  "\<forall>args ps. first_settling (fst (spawn_res (demo_env names bad le) ''ffmpeg'' args ps)) \<noteq> None"
  by (simp add: demo_env_def first_settling_def)

lemma is_mp3_examples:
  "is_mp3 ''a.mp3''" "is_mp3 ''b.MP3''" "\<not> is_mp3 ''c.wav''" "\<not> is_mp3 ''d.txt''"
  "is_mp3 ''b.mp3''" "is_mp3 ''c.mp3''"
  by (simp_all add: is_mp3_def extname_def basename_def toLowerCase_def lower_char_def Let_def)

lemma processFolder_returns:
  assumes "readdir_res E inF = Inr names" "filter is_mp3 names \<noteq> []" "ensureDir_err E outF = None"
    and "\<forall>args ps. first_settling (fst (spawn_res E ''ffmpeg'' args ps)) \<noteq> None"
  shows "\<exists>t w'. processFolder E lg inF c outF w = (Returns (Some t), w')"
proof -
  obtain s f w4 where "process_files E lg c outF (candidates inF names) (0, 0)
             (batch_start E lg inF outF (length (filter is_mp3 names)) w) = (Some (s, f), w4)"
    using process_files_returns [OF assms(4)] by blast
  then show ?thesis
    unfolding processFolder_batch [OF assms(1-3)] by simp
qed

text \<open>
  Claim C1. Whenever \<open>processFolder\<close> completes and reports a summary, the four
  numbers of the summary satisfy total = succeeded + failed + skipped, and none is
  negative. The total is the number of files discovery kept, \<open>succeeded\<close> the number
  of conversions spawned in this run whose child exited with code 0, \<open>failed\<close> the
  number spawned whose child exited otherwise or could not be started, and \<open>skipped\<close>
  the number of candidates whose destination was found to exist.
\<close>

theorem tally_adds_up:
  assumes "processFolder E lg inputFolder coverArtPath outputFolder w = (Returns (Some t), w')"
  shows "totalDiscovered t = succeeded t + failed t + skipped t
    \<and> 0 \<le> succeeded t \<and> 0 \<le> failed t \<and> 0 \<le> skipped t
    \<and> (\<exists>names. readdir_res E inputFolder = Inr names
          \<and> totalDiscovered t = int (length (filter is_mp3 names)))
    \<and> succeeded t = count_ev is_conversion_ok w' - count_ev is_conversion_ok w
    \<and> failed t = count_ev is_conversion_failed w' - count_ev is_conversion_failed w
    \<and> skipped t = count_ev is_skip w' - count_ev is_skip w
    \<and> (\<exists>w4. w' = log_summary E lg t outputFolder w4)"
proof -
  obtain names s f w4 where rd: "readdir_res E inputFolder = Inr names"
    and run: "process_files E lg coverArtPath outputFolder (candidates inputFolder names) (0, 0)
                (batch_start E lg inputFolder outputFolder (length (filter is_mp3 names)) w)
              = (Some (s, f), w4)"
    and t: "t = tally_of (length (filter is_mp3 names)) s f"
    and w': "w' = log_summary E lg t outputFolder w4"
    using processFolder_Some [OF assms] by blast
  define w3 where "w3 = batch_start E lg inputFolder outputFolder (length (filter is_mp3 names)) w"
  have len: "length (candidates inputFolder names) = length (filter is_mp3 names)"
    by (simp add: candidates_def)
  note c = process_files_counts [OF run, folded w3_def, unfolded len]
  have b: "count_ev is_skip w3 = count_ev is_skip w"
    "count_ev is_conversion_ok w3 = count_ev is_conversion_ok w"
    "count_ev is_conversion_failed w3 = count_ev is_conversion_failed w"
    unfolding w3_def by (simp_all add: count_ev_batch)
  have e: "count_ev is_skip w' = count_ev is_skip w4"
    "count_ev is_conversion_ok w' = count_ev is_conversion_ok w4"
    "count_ev is_conversion_failed w' = count_ev is_conversion_failed w4"
    unfolding w' by (simp_all add: count_ev_batch)
  have fields: "totalDiscovered t = int (length (filter is_mp3 names))" "succeeded t = s"
    "failed t = f" "skipped t = int (length (filter is_mp3 names)) - s - f"
    unfolding t by (simp_all add: tally_of_def)
  have "totalDiscovered t = succeeded t + failed t + skipped t" using fields by simp
  moreover have "0 \<le> succeeded t" "0 \<le> failed t" "0 \<le> skipped t" using fields c by simp_all
  moreover have "succeeded t = count_ev is_conversion_ok w' - count_ev is_conversion_ok w"
    "failed t = count_ev is_conversion_failed w' - count_ev is_conversion_failed w"
    "skipped t = count_ev is_skip w' - count_ev is_skip w"
    using fields c b e by simp_all
  ultimately show ?thesis using rd fields(1) w' by blast
qed

theorem tally_adds_up_witness:
  "\<exists>t w'. processFolder (demo_env [''a.mp3'', ''b.MP3'', ''c.wav''] [''/out/b.MP3''] None)
              (demo_logger ''info'') ''/in'' ''/c.jpg'' ''/out'' start = (Returns (Some t), w')
     \<and> totalDiscovered t = succeeded t + failed t + skipped t
     \<and> totalDiscovered t = 2"
proof -
  define E where "E = demo_env [''a.mp3'', ''b.MP3'', ''c.wav''] [''/out/b.MP3''] None"
  have rd: "readdir_res E ''/in'' = Inr [''a.mp3'', ''b.MP3'', ''c.wav'']"
    and ed: "ensureDir_err E ''/out'' = None"
    by (simp_all add: E_def demo_env_def)
  have fl: "filter is_mp3 [''a.mp3'', ''b.MP3'', ''c.wav''] = [''a.mp3'', ''b.MP3'']"
    by (simp add: is_mp3_examples)
  then have ne: "filter is_mp3 [''a.mp3'', ''b.MP3'', ''c.wav''] \<noteq> []" by simp
  obtain t w' where r: "processFolder E (demo_logger ''info'') ''/in'' ''/c.jpg'' ''/out'' start
      = (Returns (Some t), w')"
    using processFolder_returns [OF rd ne ed] demo_settles unfolding E_def by blast
  show ?thesis
    using tally_adds_up [OF r] r rd fl unfolding E_def by auto
qed

section \<open>What a run prints\<close>

lemma console_lines_log:
  "console_lines (log E lg level message w) =
     console_lines w @ (if shouldLog lg level then [console_line E (ticks w) level message] else [])"
  by (simp add: sink_defs console_lines_def console_line_def split: option.splits)

lemma ticks_log:
  "ticks (log E lg level message w) = ticks w + (if shouldLog lg level then 1 else 0)"
  by (simp add: sink_defs split: option.splits)

lemma console_lines_emit: "console_lines (emit e w) = console_lines w @ console_text e"
  by (simp add: console_lines_def emit_def)

text \<open>
  The \<open>close\<close> listener of a child whose spawn failed prints its error line (and the
  captured error stream, if any) when it fires, after whatever the console shows then.
\<close>

lemma deliver_close:
  assumes "shouldLog lg ''error''" and "u_events u = [CloseEv code]" and "code \<noteq> Some 0"
  shows "console_lines (deliver E lg u w) =
     console_lines w
       @ console_line E (ticks w) ''error''
           (cross_mark @ '' Failed to process '' @ basename (u_inputFile u)
            @ '': FFmpeg exited with code '' @ show_code code)
       # (if stderr (u_state u) \<noteq> []
          then [console_line E (ticks w + 1) ''error''
                  (''FFmpeg stderr: '' @ trim (stderr (u_state u)))]
          else [])"
  using assms
  by (simp add: deliver_def error_def Let_def console_lines_log ticks_log)

lemma console_lines_log_summary:
  assumes "shouldLog lg ''info''"
  shows "console_lines (log_summary E lg t outF w) =
     console_lines w @ summary_console E (ticks w) t
       @ (if succeeded t > 0
          then [console_line E (ticks w + 5) ''info''
                  (check_mark @ '' All processed files saved to: '' @ outF)]
          else [])"
  using assms
  by (simp add: log_summary_def Let_def info_def console_lines_log ticks_log summary_console_def
        eval_nat_numeral)

lemma starts_with_append: "starts_with (t @ ys) t"
  by (induction t) simp_all

lemma includes_str_append: "includes_str (xs @ t @ ys) t"
proof (induction xs)
  case Nil
  then show ?case by (cases "t @ ys") (use starts_with_append [of t ys] in auto)
next
  case (Cons x xs)
  then show ?case by simp
qed

lemma summary_line_mentioned:
  "includes_str (console_line E k ''info'' (CHR 0x0A # ''=== Processing Summary ===''))
     ''=== Processing Summary ===''"
proof -
  have "console_line E k ''info'' (CHR 0x0A # ''=== Processing Summary ==='') =
      (CHR 0x1B # ''[32m['' @ now E k @ ''] ['' @ toUpperCase ''info'' @ ''] '' @ [CHR 0x0A])
        @ ''=== Processing Summary ==='' @ (CHR 0x1B # ''[0m'')"
    by (simp add: console_line_def colourise_def)
  then show ?thesis using includes_str_append by metis
qed

text \<open>
  Claim C7, as the code has it. A run that finds at least one candidate, can create
  the output folder and whose conversions all settle returns, however many of them
  failed, and the summary block is the last thing it logs before it returns, at level
  \<open>info\<close>: with the threshold at \<open>debug\<close> or \<open>info\<close>, the lines the run has written with
  \<open>console.log\<close> when \<open>processFolder\<close> resolves end with the five summary lines,
  followed only by the line naming the output folder when a file succeeded. What is
  not in step with the run may still print afterwards: the listeners kept in \<open>late\<close>
  (the \<open>close\<close> after a failed spawn logs its error line when it is delivered) and the
  \<open>console.error\<close> reports of rejected appends.
\<close>

theorem summary_after_every_batch:
  assumes "readdir_res E inF = Inr names" and "filter is_mp3 names \<noteq> []"
    and "ensureDir_err E outF = None"
    and "\<forall>args ps. first_settling (fst (spawn_res E ''ffmpeg'' args ps)) \<noteq> None"
    and "shouldLog lg ''info''"
  shows "\<exists>t w' pre k. processFolder E lg inF c outF w = (Returns (Some t), w')
     \<and> console_lines w' = pre @ summary_console E k t
         @ (if succeeded t > 0
            then [console_line E (k + 5) ''info''
                    (check_mark @ '' All processed files saved to: '' @ outF)]
            else [])
     \<and> mentions_summary w'"
proof -
  obtain t w' where r: "processFolder E lg inF c outF w = (Returns (Some t), w')"
    using processFolder_returns [OF assms(1-4)] by blast
  obtain w4 where w': "w' = log_summary E lg t outF w4"
    using processFolder_Some [OF r] by blast
  have cl: "console_lines w' = console_lines w4 @ summary_console E (ticks w4) t
         @ (if succeeded t > 0
            then [console_line E (ticks w4 + 5) ''info''
                    (check_mark @ '' All processed files saved to: '' @ outF)]
            else [])"
    unfolding w' by (rule console_lines_log_summary [OF assms(5)])
  have "console_line E (ticks w4) ''info'' (CHR 0x0A # ''=== Processing Summary ==='')
          \<in> set (console_lines w')"
    unfolding cl by (simp add: summary_console_def)
  then have "mentions_summary w'"
    unfolding mentions_summary_def list_ex_iff using summary_line_mentioned by blast
  then show ?thesis using r cl by blast
qed

theorem summary_after_every_batch_witness:
  "\<exists>t w' pre k. processFolder (demo_env [''a.mp3''] [''/out/a.mp3''] None)
                  (demo_logger ''info'') ''/in'' ''/c.jpg'' ''/out'' start = (Returns (Some t), w')
     \<and> console_lines w' = pre @ summary_console (demo_env [''a.mp3''] [''/out/a.mp3''] None) k t
         @ (if succeeded t > 0
            then [console_line (demo_env [''a.mp3''] [''/out/a.mp3''] None) (k + 5) ''info''
                    (check_mark @ '' All processed files saved to: '' @ ''/out'')]
            else [])
     \<and> mentions_summary w'"
proof -
  have a: "readdir_res (demo_env [''a.mp3''] [''/out/a.mp3''] None) ''/in'' = Inr [''a.mp3'']"
    "ensureDir_err (demo_env [''a.mp3''] [''/out/a.mp3''] None) ''/out'' = None"
    by (simp_all add: demo_env_def)
  have b: "filter is_mp3 [''a.mp3''] \<noteq> []" by (simp add: is_mp3_examples)
  have c: "shouldLog (demo_logger ''info'') ''info''"
    by (simp add: shouldLog_def demo_logger_def logLevels_def)
  show ?thesis
    using summary_after_every_batch [OF a(1) b a(2) demo_settles c] .
qed

text \<open>
  Claim C7 as the specification states it fails for a run that finds no candidate: the
  run completes without error and the console shows no summary.
\<close>

theorem no_summary_without_candidates_counterexample:
  "fst (processFolder (demo_env [] [] None) (demo_logger ''debug'') ''/in'' ''/c.jpg'' ''/out'' start)
     = Returns None
   \<and> \<not> mentions_summary
        (snd (processFolder (demo_env [] [] None) (demo_logger ''debug'') ''/in'' ''/c.jpg'' ''/out'' start))"
proof -
  have rd: "readdir_res (demo_env [] [] None) ''/in'' = Inr []" by (simp add: demo_env_def)
  have fe: "filter is_mp3 [] = []" by simp
  note pe = processFolder_empty [OF rd fe, where lg = "demo_logger ''debug''" and c = "''/c.jpg''"
      and outF = "''/out''" and w = start]
  have sl: "shouldLog (demo_logger ''debug'') ''info''" "shouldLog (demo_logger ''debug'') ''warn''"
    by (simp_all add: shouldLog_def demo_logger_def logLevels_def)
  have nw: "now (demo_env [] [] None) k = ''2024-05-17T10:00:'' @ digits (10 + k) @ ''.000Z''" for k
    by (simp add: demo_env_def)
  have d: "digits 10 = ''10''" "digits 11 = ''11''"
    by (simp_all add: digits.simps digit_char_def)
  have cl: "console_lines (snd (processFolder (demo_env [] [] None) (demo_logger ''debug'') ''/in'' ''/c.jpg'' ''/out'' start))
     = [console_line (demo_env [] [] None) 0 ''info'' ''Found 0 MP3 files in /in'',
        console_line (demo_env [] [] None) 1 ''warn'' ''No MP3 files found in the input folder'']"
    unfolding pe
    by (simp add: warn_def info_def console_lines_log ticks_log sl console_lines_emit)
       (simp add: start_def console_lines_def emit_def)
  have "\<not> includes_str (console_line (demo_env [] [] None) 0 ''info'' ''Found 0 MP3 files in /in'') ''=== Processing Summary ===''"
    by (simp add: console_line_def colourise_def nw d toUpperCase_def upper_char_def)
  moreover have "\<not> includes_str (console_line (demo_env [] [] None) 1 ''warn'' ''No MP3 files found in the input folder'') ''=== Processing Summary ===''"
    by (simp add: console_line_def colourise_def nw d toUpperCase_def upper_char_def)
  ultimately show ?thesis
    unfolding mentions_summary_def cl
    by (simp add: pe)
qed

lemma not_sink_free: "\<forall>e. is_sink_event e \<longrightarrow> \<not> (\<not> is_sink_event e)"
  by simp

text \<open>
  Claim C4, as the code has it. When discovery keeps no file, \<open>processFolder\<close> logs
  the count and a warning and returns at once, with no tally and no summary. Apart
  from the logger's output its only effect is the reading of the input folder: the
  output folder is neither created nor examined, and no process is spawned.
\<close>

theorem no_candidates_no_tally:
  assumes "readdir_res E inF = Inr names" and "filter is_mp3 names = []"
  shows "fst (processFolder E lg inF c outF w) = Returns None
    \<and> filter (\<lambda>e. \<not> is_sink_event e) (trace (snd (processFolder E lg inF c outF w)))
        = filter (\<lambda>e. \<not> is_sink_event e) (trace w) @ [ReadDir inF]
    \<and> console_lines (snd (processFolder E lg inF c outF w))
        = console_lines w
          @ (if shouldLog lg ''info''
             then [console_line E (ticks w) ''info'' (''Found 0 MP3 files in '' @ inF)] else [])
          @ (if shouldLog lg ''warn''
             then [console_line E (ticks w + (if shouldLog lg ''info'' then 1 else 0)) ''warn''
                     ''No MP3 files found in the input folder'']
             else [])
    \<and> set (paths w) \<subseteq> set (paths (snd (processFolder E lg inF c outF w)))
    \<and> set (paths (snd (processFolder E lg inF c outF w))) \<subseteq> insert (logFile lg) (set (paths w))"
proof -
  define w1 where "w1 = emit (ReadDir inF) w"
  define w2 where "w2 = log E lg ''info'' (''Found 0 MP3 files in '' @ inF) w1"
  define w3 where "w3 = log E lg ''warn'' ''No MP3 files found in the input folder'' w2"
  have r: "processFolder E lg inF c outF w = (Returns None, w3)"
    unfolding processFolder_empty [OF assms] w3_def w2_def w1_def warn_def info_def ..
  have t: "filter (\<lambda>e. \<not> is_sink_event e) (trace w3)
        = filter (\<lambda>e. \<not> is_sink_event e) (trace w) @ [ReadDir inF]"
    unfolding w3_def w2_def w1_def
    by (simp add: log_filter [OF not_sink_free] emit_def)
  have c: "console_lines w3 = console_lines w
          @ (if shouldLog lg ''info''
             then [console_line E (ticks w) ''info'' (''Found 0 MP3 files in '' @ inF)] else [])
          @ (if shouldLog lg ''warn''
             then [console_line E (ticks w + (if shouldLog lg ''info'' then 1 else 0)) ''warn''
                     ''No MP3 files found in the input folder'']
             else [])"
    unfolding w3_def w2_def w1_def
    by (simp add: console_lines_log ticks_log console_lines_emit) (simp add: emit_def)
  have p1: "paths w1 = paths w" by (simp add: w1_def emit_def)
  have p2: "set (paths w1) \<subseteq> set (paths w2)" "set (paths w2) \<subseteq> set (paths w3)"
    unfolding w2_def w3_def by (rule log_paths_mono)+
  have p3: "set (paths w2) \<subseteq> insert (logFile lg) (set (paths w1))"
    "set (paths w3) \<subseteq> insert (logFile lg) (set (paths w2))"
    unfolding w2_def w3_def by (rule log_paths_upper)+
  have "set (paths w) \<subseteq> set (paths w3)" "set (paths w3) \<subseteq> insert (logFile lg) (set (paths w))"
    using p1 p2 p3 by auto
  then show ?thesis using t c unfolding r by simp
qed

theorem no_candidates_no_tally_witness:
  "fst (processFolder (demo_env [''c.wav'', ''d.txt''] [] None) (demo_logger ''warn'')
          ''/in'' ''/c.jpg'' ''/out'' start) = Returns None
   \<and> filter (\<lambda>e. \<not> is_sink_event e)
        (trace (snd (processFolder (demo_env [''c.wav'', ''d.txt''] [] None) (demo_logger ''warn'')
                       ''/in'' ''/c.jpg'' ''/out'' start)))
      = [ReadDir ''/in'']"
proof -
  have rd: "readdir_res (demo_env [''c.wav'', ''d.txt''] [] None) ''/in'' = Inr [''c.wav'', ''d.txt'']"
    by (simp add: demo_env_def)
  have fe: "filter is_mp3 [''c.wav'', ''d.txt''] = []" by (simp add: is_mp3_examples)
  show ?thesis
    using no_candidates_no_tally [OF rd fe, of "demo_logger ''warn''" "''/c.jpg''" "''/out''" start]
    by (simp add: start_def)
qed

text \<open>
  Claim C4 as the specification states it fails: for a folder without \<open>.mp3\<close> files
  the run hands back no tally, zero-filled or other, and prints the two lines below
  and nothing else.
\<close>

theorem zero_filled_tally_counterexample:
  "fst (processFolder (demo_env [''c.wav'', ''d.txt''] [] None) (demo_logger ''info'')
          ''/in'' ''/c.jpg'' ''/out'' start) = Returns None
   \<and> fst (processFolder (demo_env [''c.wav'', ''d.txt''] [] None) (demo_logger ''info'')
          ''/in'' ''/c.jpg'' ''/out'' start)
     \<noteq> Returns (Some \<lparr>totalDiscovered = 0, succeeded = 0, failed = 0, skipped = 0\<rparr>)
   \<and> console_lines (snd (processFolder (demo_env [''c.wav'', ''d.txt''] [] None) (demo_logger ''info'')
          ''/in'' ''/c.jpg'' ''/out'' start))
     = [console_line (demo_env [''c.wav'', ''d.txt''] [] None) 0 ''info'' ''Found 0 MP3 files in /in'',
        console_line (demo_env [''c.wav'', ''d.txt''] [] None) 1 ''warn''
          ''No MP3 files found in the input folder'']"
proof -
  have rd: "readdir_res (demo_env [''c.wav'', ''d.txt''] [] None) ''/in'' = Inr [''c.wav'', ''d.txt'']"
    by (simp add: demo_env_def)
  have fe: "filter is_mp3 [''c.wav'', ''d.txt''] = []" by (simp add: is_mp3_examples)
  have sl: "shouldLog (demo_logger ''info'') ''info''" "shouldLog (demo_logger ''info'') ''warn''"
    by (simp_all add: shouldLog_def demo_logger_def logLevels_def)
  note pe = processFolder_empty [OF rd fe, where lg = "demo_logger ''info''" and c = "''/c.jpg''"
      and outF = "''/out''" and w = start]
  show ?thesis
    unfolding pe
    by (simp add: warn_def info_def console_lines_log ticks_log sl console_lines_emit)
       (simp add: start_def console_lines_def emit_def)
qed

section \<open>Failure isolation and repeated runs\<close>

lemma fresh_batch:
  fixes ok made :: "string \<Rightarrow> bool"
  assumes own: "\<forall>i\<in>set files. \<forall>ps.
        set (snd (spawn_res E ''ffmpeg'' (ffmpegArgs i c (destination outF i)) ps))
          \<subseteq> (if made i then insert (destination outF i) (set ps) else set ps)"
    and out: "\<forall>i\<in>set files. \<forall>ps.
        (child_succeeded (fst (spawn_res E ''ffmpeg'' (ffmpegArgs i c (destination outF i)) ps)) \<longleftrightarrow> ok i)
        \<and> (child_failed (fst (spawn_res E ''ffmpeg'' (ffmpegArgs i c (destination outF i)) ps)) \<longleftrightarrow> \<not> ok i)"
    and dist: "distinct (map (destination outF) files)"
    and fresh: "\<forall>i\<in>set files. destination outF i \<notin> set (paths w) \<and> destination outF i \<noteq> logFile lg"
  shows "\<exists>w'. process_files E lg c outF files (s, f) w
            = (Some (s + int (length (filter ok files)),
                     f + int (length (filter (\<lambda>i. \<not> ok i) files))), w')
          \<and> set (paths w') \<subseteq> set (paths w) \<union> {logFile lg}
                \<union> destination outF ` {i \<in> set files. made i}"
  using assms
proof (induction files arbitrary: s f w)
  case Nil
  then show ?case by (auto simp add: process_files.simps)
next
  case (Cons i rest)
  define d where "d = destination outF i"
  define wn where "wn = next_world E lg c outF i w"
  define ch where "ch = candidate_child E lg c outF i w"
  have dfresh: "d \<notin> set (paths w)" "d \<noteq> logFile lg"
    using Cons.prems(4) by (simp_all add: d_def)
  obtain ps where ps: "set (paths w) \<subseteq> set ps" "set ps \<subseteq> insert (logFile lg) (set (paths w))"
    and chp: "ch = fst (spawn_res E ''ffmpeg'' (ffmpegArgs i c d) ps)"
    and up: "set (paths wn) \<subseteq> insert (logFile lg) (set (snd (spawn_res E ''ffmpeg'' (ffmpegArgs i c d) ps)))"
    using next_world_paths_fresh [of outF i w lg E c] dfresh(1)
    unfolding d_def wn_def ch_def by blast
  have own_i: "set (snd (spawn_res E ''ffmpeg'' (ffmpegArgs i c d) ps))
          \<subseteq> (if made i then insert d (set ps) else set ps)"
    using Cons.prems(1) [rule_format, of i ps] by (simp add: d_def split: if_splits)
  have pn: "set (paths wn) \<subseteq> set (paths w) \<union> {logFile lg} \<union> (if made i then {d} else {})"
    using up own_i ps by (auto split: if_splits)
  have oc: "child_succeeded ch \<longleftrightarrow> ok i" "child_failed ch \<longleftrightarrow> \<not> ok i"
    using Cons.prems(2) [rule_format, of i ps] unfolding chp d_def by simp_all
  have rest_fresh: "\<forall>j\<in>set rest. destination outF j \<notin> set (paths wn) \<and> destination outF j \<noteq> logFile lg"
  proof
    fix j assume j: "j \<in> set rest"
    have "d \<notin> destination outF ` set rest" using Cons.prems(3) by (simp add: d_def)
    then have "destination outF j \<noteq> d" using j by blast
    moreover have "destination outF j \<notin> set (paths w)" "destination outF j \<noteq> logFile lg"
      using Cons.prems(4) j by simp_all
    ultimately show "destination outF j \<notin> set (paths wn) \<and> destination outF j \<noteq> logFile lg"
      using pn by (auto split: if_splits)
  qed
  have p1: "\<forall>i\<in>set rest. \<forall>ps.
        set (snd (spawn_res E ''ffmpeg'' (ffmpegArgs i c (destination outF i)) ps))
          \<subseteq> (if made i then insert (destination outF i) (set ps) else set ps)"
    using Cons.prems(1) by simp
  have p2: "\<forall>i\<in>set rest. \<forall>ps.
        (child_succeeded (fst (spawn_res E ''ffmpeg'' (ffmpegArgs i c (destination outF i)) ps)) \<longleftrightarrow> ok i)
        \<and> (child_failed (fst (spawn_res E ''ffmpeg'' (ffmpegArgs i c (destination outF i)) ps)) \<longleftrightarrow> \<not> ok i)"
    using Cons.prems(2) by simp
  have p3: "distinct (map (destination outF) rest)" using Cons.prems(3) by simp
  note step = process_files_step [of E lg c outF i rest s f w, folded wn_def ch_def d_def]
  show ?case
  proof (cases "ok i")
    case True
    obtain w' where r: "process_files E lg c outF rest (s + 1, f) wn
            = (Some (s + 1 + int (length (filter ok rest)),
                     f + int (length (filter (\<lambda>i. \<not> ok i) rest))), w')"
      and pw: "set (paths w') \<subseteq> set (paths wn) \<union> {logFile lg}
                \<union> destination outF ` {i \<in> set rest. made i}"
      using Cons.IH [OF p1 p2 p3 rest_fresh, of "s + 1" f] by blast
    have "process_files E lg c outF (i # rest) (s, f) w
            = (Some (s + int (length (filter ok (i # rest))),
                     f + int (length (filter (\<lambda>i. \<not> ok i) (i # rest)))), w')"
      using step dfresh(1) oc True r by simp
    moreover have "set (paths w') \<subseteq> set (paths w) \<union> {logFile lg}
                \<union> destination outF ` {j \<in> set (i # rest). made j}"
      using pw pn by (auto simp: d_def split: if_splits)
    ultimately show ?thesis by blast
  next
    case False
    obtain w' where r: "process_files E lg c outF rest (s, f + 1) wn
            = (Some (s + int (length (filter ok rest)),
                     f + 1 + int (length (filter (\<lambda>i. \<not> ok i) rest))), w')"
      and pw: "set (paths w') \<subseteq> set (paths wn) \<union> {logFile lg}
                \<union> destination outF ` {i \<in> set rest. made i}"
      using Cons.IH [OF p1 p2 p3 rest_fresh, of s "f + 1"] by blast
    have "process_files E lg c outF (i # rest) (s, f) w
            = (Some (s + int (length (filter ok (i # rest))),
                     f + int (length (filter (\<lambda>i. \<not> ok i) (i # rest)))), w')"
      using step dfresh(1) oc False r by simp
    moreover have "set (paths w') \<subseteq> set (paths w) \<union> {logFile lg}
                \<union> destination outF ` {j \<in> set (i # rest). made j}"
      using pw pn by (auto simp: d_def split: if_splits)
    ultimately show ?thesis by blast
  qed
qed

lemma processFolder_fresh:
  fixes ok made :: "string \<Rightarrow> bool"
  assumes rd: "readdir_res E inF = Inr names" and ne: "filter is_mp3 names \<noteq> []"
    and ed: "ensureDir_err E outF = None"
    and own: "\<forall>i\<in>set (candidates inF names). \<forall>ps.
        set (snd (spawn_res E ''ffmpeg'' (ffmpegArgs i c (destination outF i)) ps))
          \<subseteq> (if made i then insert (destination outF i) (set ps) else set ps)"
    and out: "\<forall>i\<in>set (candidates inF names). \<forall>ps.
        (child_succeeded (fst (spawn_res E ''ffmpeg'' (ffmpegArgs i c (destination outF i)) ps)) \<longleftrightarrow> ok i)
        \<and> (child_failed (fst (spawn_res E ''ffmpeg'' (ffmpegArgs i c (destination outF i)) ps)) \<longleftrightarrow> \<not> ok i)"
    and dist: "distinct (map (destination outF) (candidates inF names))"
    and fresh: "\<forall>i\<in>set (candidates inF names). destination outF i \<notin> set (paths w)
                  \<and> destination outF i \<noteq> logFile lg \<and> destination outF i \<noteq> outF"
  shows "\<exists>w'. processFolder E lg inF c outF w
            = (Returns (Some (tally_of (length (filter is_mp3 names))
                               (int (length (filter ok (candidates inF names))))
                               (int (length (filter (\<lambda>i. \<not> ok i) (candidates inF names)))))), w')
          \<and> set (paths w') \<subseteq> set (paths w) \<union> {logFile lg, outF}
                \<union> destination outF ` {i \<in> set (candidates inF names). made i}
          \<and> count_ev is_spawn w' = count_ev is_spawn w + int (length (filter is_mp3 names))"
proof -
  define w3 where "w3 = batch_start E lg inF outF (length (filter is_mp3 names)) w"
  have p3: "set (paths w3) \<subseteq> insert (logFile lg) (insert outF (set (paths w)))"
    unfolding w3_def by (rule batch_start_paths)
  have fresh3: "\<forall>i\<in>set (candidates inF names). destination outF i \<notin> set (paths w3)
                  \<and> destination outF i \<noteq> logFile lg"
    using fresh p3 by blast
  obtain w4 where run: "process_files E lg c outF (candidates inF names) (0, 0) w3
            = (Some (0 + int (length (filter ok (candidates inF names))),
                     0 + int (length (filter (\<lambda>i. \<not> ok i) (candidates inF names)))), w4)"
    and p4: "set (paths w4) \<subseteq> set (paths w3) \<union> {logFile lg}
                \<union> destination outF ` {i \<in> set (candidates inF names). made i}"
    using fresh_batch [OF own out dist fresh3, of 0 0] by blast
  define t where "t = tally_of (length (filter is_mp3 names))
                               (int (length (filter ok (candidates inF names))))
                               (int (length (filter (\<lambda>i. \<not> ok i) (candidates inF names))))"
  have r: "processFolder E lg inF c outF w = (Returns (Some t), log_summary E lg t outF w4)"
    unfolding processFolder_batch [OF rd ne ed] w3_def [symmetric] t_def using run by simp
  have p5: "set (paths (log_summary E lg t outF w4)) \<subseteq> insert (logFile lg) (set (paths w4))"
    by (rule log_summary_paths)
  have len: "length (candidates inF names) = length (filter is_mp3 names)"
    by (simp add: candidates_def)
  have "length (filter ok (candidates inF names)) + length (filter (\<lambda>i. \<not> ok i) (candidates inF names))
          = length (candidates inF names)"
    by (rule sum_length_filter_compl)
  then have tot: "int (length (filter ok (candidates inF names)))
      + int (length (filter (\<lambda>i. \<not> ok i) (candidates inF names))) = int (length (filter is_mp3 names))"
    unfolding len by linarith
  have c4: "count_ev is_spawn w4 = count_ev is_spawn w3
      + int (length (filter ok (candidates inF names)))
      + int (length (filter (\<lambda>i. \<not> ok i) (candidates inF names)))"
    using process_files_counts [OF run] by simp
  have "count_ev is_spawn (log_summary E lg t outF w4) = count_ev is_spawn w + int (length (filter is_mp3 names))"
    using c4 tot by (simp add: count_ev_batch w3_def)
  moreover have "set (paths (log_summary E lg t outF w4)) \<subseteq> set (paths w) \<union> {logFile lg, outF}
                \<union> destination outF ` {i \<in> set (candidates inF names). made i}"
    using p3 p4 p5 by blast
  ultimately show ?thesis using r unfolding t_def by blast
qed

text \<open>
  Claim C3. In a batch of three candidates of which the first and the third convert
  and the second fails, with no destination existing beforehand, all three are
  attempted and the summary reports total 3, succeeded 2, failed 1, skipped 0.
  (The converter is taken to write no file but its own output.)
\<close>

theorem failure_does_not_stop_batch:
  assumes "readdir_res E inF = Inr names"
    and "candidates inF names = [f1, f2, f3]"
    and "ensureDir_err E outF = None"
    and "distinct [destination outF f1, destination outF f2, destination outF f3]"
    and "\<forall>i\<in>{f1, f2, f3}. destination outF i \<notin> set (paths w)
           \<and> destination outF i \<noteq> logFile lg \<and> destination outF i \<noteq> outF"
    and "\<forall>i\<in>{f1, f2, f3}. \<forall>ps.
           set (snd (spawn_res E ''ffmpeg'' (ffmpegArgs i c (destination outF i)) ps))
             \<subseteq> insert (destination outF i) (set ps)"
    and "\<forall>ps. child_succeeded (fst (spawn_res E ''ffmpeg'' (ffmpegArgs f1 c (destination outF f1)) ps))"
    and "\<forall>ps. child_failed (fst (spawn_res E ''ffmpeg'' (ffmpegArgs f2 c (destination outF f2)) ps))"
    and "\<forall>ps. child_succeeded (fst (spawn_res E ''ffmpeg'' (ffmpegArgs f3 c (destination outF f3)) ps))"
  shows "\<exists>w'. processFolder E lg inF c outF w
            = (Returns (Some \<lparr>totalDiscovered = 3, succeeded = 2, failed = 1, skipped = 0\<rparr>), w')
          \<and> count_ev is_spawn w' = count_ev is_spawn w + 3"
proof -
  define ok where "ok = (\<lambda>i. i \<noteq> f2)"
  have d: "f1 \<noteq> f2" "f2 \<noteq> f3" using assms(4) by auto
  have len: "length (filter is_mp3 names) = 3"
    using assms(2) by (metis candidates_def length_map length_Cons list.size(3) numeral_3_eq_3)
  then have ne: "filter is_mp3 names \<noteq> []" by auto
  have own: "\<forall>i\<in>set (candidates inF names). \<forall>ps.
        set (snd (spawn_res E ''ffmpeg'' (ffmpegArgs i c (destination outF i)) ps))
          \<subseteq> (if (\<lambda>_. True) i then insert (destination outF i) (set ps) else set ps)"
    using assms(6) unfolding assms(2) by simp
  have out: "\<forall>i\<in>set (candidates inF names). \<forall>ps.
        (child_succeeded (fst (spawn_res E ''ffmpeg'' (ffmpegArgs i c (destination outF i)) ps)) \<longleftrightarrow> ok i)
        \<and> (child_failed (fst (spawn_res E ''ffmpeg'' (ffmpegArgs i c (destination outF i)) ps)) \<longleftrightarrow> \<not> ok i)"
    unfolding assms(2) ok_def
    using assms(7-9) d child_outcomes_exclusive by auto
  have dist: "distinct (map (destination outF) (candidates inF names))"
    unfolding assms(2) using assms(4) by simp
  have fresh: "\<forall>i\<in>set (candidates inF names). destination outF i \<notin> set (paths w)
                  \<and> destination outF i \<noteq> logFile lg \<and> destination outF i \<noteq> outF"
    unfolding assms(2) using assms(5) by simp
  have cnt: "int (length (filter ok (candidates inF names))) = 2"
    "int (length (filter (\<lambda>i. \<not> ok i) (candidates inF names))) = 1"
    unfolding assms(2) ok_def using d by auto
  show ?thesis
    using processFolder_fresh [OF assms(1) ne assms(3) own out dist fresh]
    unfolding cnt len by (simp add: tally_of_def) blast
qed

lemma last_ffmpegArgs: "last (ffmpegArgs i c out) = out" "ffmpegArgs i c out \<noteq> [''-version'']"
  by (simp_all add: ffmpegArgs_def)

lemma demo_spawn_bad:
  "out \<in> set bad \<Longrightarrow>
     spawn_res (demo_env names bad le) cmd (ffmpegArgs i c out) ps
       = ([StderrData ''Invalid data found when processing input'', CloseEv (Some 1)], ps)"
  by (simp add: demo_env_def last_ffmpegArgs)

lemma demo_spawn_good:
  "out \<notin> set bad \<Longrightarrow>
     spawn_res (demo_env names bad le) cmd (ffmpegArgs i c out) ps
       = ([CloseEv (Some 0)], if out \<in> set ps then ps else ps @ [out])"
  by (simp add: demo_env_def last_ffmpegArgs)

lemma demo_children:
  "child_succeeded [CloseEv (Some 0)]"
  "\<not> child_failed [CloseEv (Some 0)]"
  "child_failed [StderrData ''Invalid data found when processing input'', CloseEv (Some 1)]"
  "\<not> child_succeeded [StderrData ''Invalid data found when processing input'', CloseEv (Some 1)]"
  by (simp_all add: child_succeeded_def child_failed_def first_settling_def)

lemma demo_paths:
  "path_join [''/in'', ''a.mp3''] = ''/in/a.mp3''"
  "path_join [''/in'', ''b.mp3''] = ''/in/b.mp3''"
  "path_join [''/in'', ''c.mp3''] = ''/in/c.mp3''"
  "destination ''/out'' ''/in/a.mp3'' = ''/out/a.mp3''"
  "destination ''/out'' ''/in/b.mp3'' = ''/out/b.mp3''"
  "destination ''/out'' ''/in/c.mp3'' = ''/out/c.mp3''"
  by (simp_all add: destination_def basename_def path_join_def path_normalize_def Let_def)

theorem failure_does_not_stop_batch_witness:
  "\<exists>w'. processFolder (demo_env [''a.mp3'', ''b.mp3'', ''c.mp3'', ''d.txt''] [''/out/b.mp3''] None)
           (demo_logger ''info'') ''/in'' ''/c.jpg'' ''/out'' start
            = (Returns (Some \<lparr>totalDiscovered = 3, succeeded = 2, failed = 1, skipped = 0\<rparr>), w')
          \<and> count_ev is_spawn w' = count_ev is_spawn start + 3"
proof -
  define E where "E = demo_env [''a.mp3'', ''b.mp3'', ''c.mp3'', ''d.txt''] [''/out/b.mp3''] None"
  have rd: "readdir_res E ''/in'' = Inr [''a.mp3'', ''b.mp3'', ''c.mp3'', ''d.txt'']"
    and ed: "ensureDir_err E ''/out'' = None"
    by (simp_all add: E_def demo_env_def)
  have cs: "candidates ''/in'' [''a.mp3'', ''b.mp3'', ''c.mp3'', ''d.txt'']
              = [''/in/a.mp3'', ''/in/b.mp3'', ''/in/c.mp3'']"
    by (simp add: candidates_def is_mp3_examples demo_paths)
  have di: "distinct [destination ''/out'' ''/in/a.mp3'', destination ''/out'' ''/in/b.mp3'',
                      destination ''/out'' ''/in/c.mp3'']"
    by (simp add: demo_paths)
  have fr: "\<forall>i\<in>{''/in/a.mp3'', ''/in/b.mp3'', ''/in/c.mp3''}.
              destination ''/out'' i \<notin> set (paths start)
              \<and> destination ''/out'' i \<noteq> logFile (demo_logger ''info'')
              \<and> destination ''/out'' i \<noteq> ''/out''"
    by (simp add: demo_paths start_def demo_logger_def)
  have own: "\<forall>i\<in>{''/in/a.mp3'', ''/in/b.mp3'', ''/in/c.mp3''}. \<forall>ps.
           set (snd (spawn_res E ''ffmpeg'' (ffmpegArgs i ''/c.jpg'' (destination ''/out'' i)) ps))
             \<subseteq> insert (destination ''/out'' i) (set ps)"
    unfolding E_def by (auto simp: demo_paths demo_spawn_bad demo_spawn_good)
  have o1: "\<forall>ps. child_succeeded (fst (spawn_res E ''ffmpeg''
              (ffmpegArgs ''/in/a.mp3'' ''/c.jpg'' (destination ''/out'' ''/in/a.mp3'')) ps))"
    unfolding E_def by (simp add: demo_paths demo_spawn_good demo_children)
  have o2: "\<forall>ps. child_failed (fst (spawn_res E ''ffmpeg''
              (ffmpegArgs ''/in/b.mp3'' ''/c.jpg'' (destination ''/out'' ''/in/b.mp3'')) ps))"
    unfolding E_def by (simp add: demo_paths demo_spawn_bad demo_children)
  have o3: "\<forall>ps. child_succeeded (fst (spawn_res E ''ffmpeg''
              (ffmpegArgs ''/in/c.mp3'' ''/c.jpg'' (destination ''/out'' ''/in/c.mp3'')) ps))"
    unfolding E_def by (simp add: demo_paths demo_spawn_good demo_children)
  show ?thesis
    using failure_does_not_stop_batch [OF rd cs ed di fr own o1 o2 o3]
    unfolding E_def .
qed


lemma failing_run:
  assumes "''/out/b.mp3'' \<notin> set (paths w)"
  shows "fst (processFolder failing_env (demo_logger ''info'') ''/in'' ''/c.jpg'' ''/out'' w)
           = Returns (Some \<lparr>totalDiscovered = 1, succeeded = 0, failed = 1, skipped = 0\<rparr>)
         \<and> ''/out/b.mp3'' \<notin> set (paths (snd (processFolder failing_env (demo_logger ''info'')
                                                  ''/in'' ''/c.jpg'' ''/out'' w)))"
proof -
  have rd: "readdir_res failing_env ''/in'' = Inr [''b.mp3'']"
    and ed: "ensureDir_err failing_env ''/out'' = None"
    by (simp_all add: failing_env_def demo_env_def)
  have cs: "candidates ''/in'' [''b.mp3''] = [''/in/b.mp3'']"
    by (simp add: candidates_def is_mp3_examples demo_paths)
  have ne: "filter is_mp3 [''b.mp3''] \<noteq> []" by (simp add: is_mp3_examples)
  have own: "\<forall>i\<in>set (candidates ''/in'' [''b.mp3'']). \<forall>ps.
        set (snd (spawn_res failing_env ''ffmpeg'' (ffmpegArgs i ''/c.jpg'' (destination ''/out'' i)) ps))
          \<subseteq> (if (\<lambda>_. False) i then insert (destination ''/out'' i) (set ps) else set ps)"
    unfolding cs failing_env_def by (simp add: demo_paths demo_spawn_bad)
  have out: "\<forall>i\<in>set (candidates ''/in'' [''b.mp3'']). \<forall>ps.
        (child_succeeded (fst (spawn_res failing_env ''ffmpeg'' (ffmpegArgs i ''/c.jpg'' (destination ''/out'' i)) ps)) \<longleftrightarrow> (\<lambda>_. False) i)
        \<and> (child_failed (fst (spawn_res failing_env ''ffmpeg'' (ffmpegArgs i ''/c.jpg'' (destination ''/out'' i)) ps)) \<longleftrightarrow> \<not> (\<lambda>_. False) i)"
    unfolding cs failing_env_def by (simp add: demo_paths demo_spawn_bad demo_children)
  have dist: "distinct (map (destination ''/out'') (candidates ''/in'' [''b.mp3'']))"
    unfolding cs by simp
  have fresh: "\<forall>i\<in>set (candidates ''/in'' [''b.mp3'']). destination ''/out'' i \<notin> set (paths w)
                  \<and> destination ''/out'' i \<noteq> logFile (demo_logger ''info'') \<and> destination ''/out'' i \<noteq> ''/out''"
    unfolding cs using assms by (simp add: demo_paths demo_logger_def)
  obtain w' where r: "processFolder failing_env (demo_logger ''info'') ''/in'' ''/c.jpg'' ''/out'' w
            = (Returns (Some (tally_of (length (filter is_mp3 [''b.mp3'']))
                               (int (length (filter (\<lambda>_. False) (candidates ''/in'' [''b.mp3'']))))
                               (int (length (filter (\<lambda>i. \<not> (\<lambda>_. False) i) (candidates ''/in'' [''b.mp3''])))))), w')"
    and p: "set (paths w') \<subseteq> set (paths w) \<union> {logFile (demo_logger ''info''), ''/out''}
                \<union> destination ''/out'' ` {i \<in> set (candidates ''/in'' [''b.mp3'']). (\<lambda>_. False) i}"
    using processFolder_fresh [OF rd ne ed own out dist fresh] by blast
  have "''/out/b.mp3'' \<notin> set (paths w')"
    using p assms by (auto simp: demo_logger_def)
  then show ?thesis
    unfolding r by (simp add: tally_of_def cs is_mp3_examples)
qed

text \<open>
  Claim C2 as the specification states it fails when a conversion failed in the first
  run: the failed file has no destination, so the second run over the untouched output
  folder attempts it again, and \<open>skipped\<close> is 0 while the total is 1.
\<close>

theorem second_run_retries_failures_counterexample:
  "fst (processFolder failing_env (demo_logger ''info'') ''/in'' ''/c.jpg'' ''/out'' start)
     = Returns (Some \<lparr>totalDiscovered = 1, succeeded = 0, failed = 1, skipped = 0\<rparr>)
   \<and> fst (processFolder failing_env (demo_logger ''info'') ''/in'' ''/c.jpg'' ''/out''
            (snd (processFolder failing_env (demo_logger ''info'') ''/in'' ''/c.jpg'' ''/out'' start)))
     = Returns (Some \<lparr>totalDiscovered = 1, succeeded = 0, failed = 1, skipped = 0\<rparr>)"
proof -
  have s: "''/out/b.mp3'' \<notin> set (paths start)" by (simp add: start_def)
  note first = failing_run [OF s]
  note second = failing_run [OF first [THEN conjunct2]]
  show ?thesis using first second by blast
qed

lemma process_files_all_exist:
  assumes "\<forall>i\<in>set files. destination outF i \<in> set (paths w)"
  shows "\<exists>w'. process_files E lg c outF files (s, f) w = (Some (s, f), w')
          \<and> set (paths w) \<subseteq> set (paths w')
          \<and> count_ev is_spawn w' = count_ev is_spawn w"
  using assms
proof (induction files arbitrary: w)
  case Nil
  then show ?case by (simp add: process_files.simps)
next
  case (Cons i rest)
  define wn where "wn = next_world E lg c outF i w"
  have ex: "destination outF i \<in> set (paths w)" using Cons.prems by simp
  have mono: "set (paths w) \<subseteq> set (paths wn)"
    unfolding wn_def using ex by (rule next_world_paths_skip)
  have cnt: "count_ev is_spawn wn = count_ev is_spawn w"
    unfolding wn_def using ex by (simp add: count_ev_next_world)
  have "\<forall>j\<in>set rest. destination outF j \<in> set (paths wn)"
    using Cons.prems mono by auto
  from Cons.IH [OF this] obtain w' where
    r: "process_files E lg c outF rest (s, f) wn = (Some (s, f), w')"
    and m: "set (paths wn) \<subseteq> set (paths w')"
    and c: "count_ev is_spawn w' = count_ev is_spawn wn"
    by blast
  have "process_files E lg c outF (i # rest) (s, f) w = (Some (s, f), w')"
    unfolding process_files_step [of E lg c outF i rest s f w] using ex r
    by (simp add: wn_def)
  then show ?case using m mono c cnt by auto
qed

lemma process_files_leaves_destinations:
  assumes conv: "\<forall>i out ps. set ps \<subseteq> set (snd (spawn_res E ''ffmpeg'' (ffmpegArgs i c out) ps))
       \<and> (child_succeeded (fst (spawn_res E ''ffmpeg'' (ffmpegArgs i c out) ps))
            \<longrightarrow> out \<in> set (snd (spawn_res E ''ffmpeg'' (ffmpegArgs i c out) ps)))"
    and run: "process_files E lg c outF files (s, f) w = (Some (s', f), w')"
  shows "set (paths w) \<subseteq> set (paths w') \<and> (\<forall>i\<in>set files. destination outF i \<in> set (paths w'))"
  using run
proof (induction files arbitrary: s w)
  case Nil
  then show ?case by (simp add: process_files.simps)
next
  case (Cons i rest)
  define d where "d = destination outF i"
  define wn where "wn = next_world E lg c outF i w"
  define ch where "ch = candidate_child E lg c outF i w"
  note step = process_files_step [of E lg c outF i rest s f w, folded wn_def ch_def d_def]
  show ?case
  proof (cases "d \<in> set (paths w)")
    case True
    have mono: "set (paths w) \<subseteq> set (paths wn)"
      unfolding wn_def using True unfolding d_def by (rule next_world_paths_skip)
    have "process_files E lg c outF rest (s, f) wn = (Some (s', f), w')"
      using Cons.prems step True by simp
    from Cons.IH [OF this] show ?thesis using mono True by (auto simp: d_def)
  next
    case False
    obtain ps where ps: "set (paths w) \<subseteq> set ps"
      and chp: "ch = fst (spawn_res E ''ffmpeg'' (ffmpegArgs i c d) ps)"
      and lo: "set (snd (spawn_res E ''ffmpeg'' (ffmpegArgs i c d) ps)) \<subseteq> set (paths wn)"
      using next_world_paths_fresh [of outF i w lg E c] False
      unfolding d_def wn_def ch_def by blast
    have mono: "set (paths w) \<subseteq> set (paths wn)"
      using ps lo conv by blast
    show ?thesis
    proof (cases "child_succeeded ch")
      case True
      have "d \<in> set (snd (spawn_res E ''ffmpeg'' (ffmpegArgs i c d) ps))"
        using True conv unfolding chp by blast
      then have dn: "d \<in> set (paths wn)" using lo by blast
      have "process_files E lg c outF rest (s + 1, f) wn = (Some (s', f), w')"
        using Cons.prems step False True by simp
      from Cons.IH [OF this] show ?thesis using mono dn by (auto simp: d_def)
    next
      case ns: False
      show ?thesis
      proof (cases "child_failed ch")
        case True
        have "process_files E lg c outF rest (s, f + 1) wn = (Some (s', f), w')"
          using Cons.prems step False ns True by simp
        from process_files_counts [OF this] have "f + 1 \<le> f" by simp
        then show ?thesis by simp
      next
        case nf: False
        then show ?thesis using Cons.prems step False ns by simp
      qed
    qed
  qed
qed

text \<open>
  Claim C2, as the code has it. After a first run in which no conversion failed, with a
  converter that removes no file and leaves the output of each successful conversion
  in place, a second run with the same inputs from the world the first one left skips
  every candidate: succeeded = 0, failed = 0, skipped = total, and no process is
  spawned, so nothing is converted again or overwritten.
\<close>

theorem second_run_skips_everything:
  assumes "\<forall>i out ps. set ps \<subseteq> set (snd (spawn_res E ''ffmpeg'' (ffmpegArgs i c out) ps))
       \<and> (child_succeeded (fst (spawn_res E ''ffmpeg'' (ffmpegArgs i c out) ps))
            \<longrightarrow> out \<in> set (snd (spawn_res E ''ffmpeg'' (ffmpegArgs i c out) ps)))"
    and "processFolder E lg inF c outF w = (Returns (Some t1), w1)"
    and "failed t1 = 0"
  shows "\<exists>t2 w2. processFolder E lg inF c outF w1 = (Returns (Some t2), w2)
     \<and> totalDiscovered t2 = totalDiscovered t1
     \<and> succeeded t2 = 0 \<and> failed t2 = 0 \<and> skipped t2 = totalDiscovered t2
     \<and> count_ev is_spawn w2 = count_ev is_spawn w1"
proof -
  obtain names s f w4 where rd: "readdir_res E inF = Inr names"
    and ne: "filter is_mp3 names \<noteq> []" and ed: "ensureDir_err E outF = None"
    and run: "process_files E lg c outF (candidates inF names) (0, 0)
                (batch_start E lg inF outF (length (filter is_mp3 names)) w) = (Some (s, f), w4)"
    and t1: "t1 = tally_of (length (filter is_mp3 names)) s f"
    and w1: "w1 = log_summary E lg t1 outF w4"
    using processFolder_Some [OF assms(2)] by blast
  have "f = 0" using assms(3) t1 by (simp add: tally_of_def)
  then have run0: "process_files E lg c outF (candidates inF names) (0, 0)
                (batch_start E lg inF outF (length (filter is_mp3 names)) w) = (Some (s, 0), w4)"
    using run by simp
  have d4: "\<forall>i\<in>set (candidates inF names). destination outF i \<in> set (paths w4)"
    using process_files_leaves_destinations [OF assms(1) run0] by blast
  define w3 where "w3 = batch_start E lg inF outF (length (filter is_mp3 names)) w1"
  have "set (paths w4) \<subseteq> set (paths w1)" unfolding w1 by (rule log_summary_paths)
  moreover have "set (paths w1) \<subseteq> set (paths w3)" unfolding w3_def by (rule batch_start_paths)
  ultimately have d3: "\<forall>i\<in>set (candidates inF names). destination outF i \<in> set (paths w3)"
    using d4 by blast
  obtain w5 where run2: "process_files E lg c outF (candidates inF names) (0, 0) w3 = (Some (0, 0), w5)"
    and c5: "count_ev is_spawn w5 = count_ev is_spawn w3"
    using process_files_all_exist [OF d3, of E lg c 0 0] by blast
  define t2 where "t2 = tally_of (length (filter is_mp3 names)) 0 0"
  have r2: "processFolder E lg inF c outF w1 = (Returns (Some t2), log_summary E lg t2 outF w5)"
    unfolding processFolder_batch [OF rd ne ed] w3_def [symmetric] t2_def using run2 by simp
  have "count_ev is_spawn (log_summary E lg t2 outF w5) = count_ev is_spawn w1"
    using c5 by (simp add: count_ev_batch w3_def)
  moreover have "totalDiscovered t2 = totalDiscovered t1" "succeeded t2 = 0" "failed t2 = 0"
    "skipped t2 = totalDiscovered t2"
    unfolding t2_def t1 by (simp_all add: tally_of_def)
  ultimately show ?thesis using r2 by blast
qed

theorem second_run_skips_everything_witness:
  "\<exists>t1 w1 t2 w2.
     processFolder (demo_env [''a.mp3'', ''d.txt''] [] None) (demo_logger ''info'')
        ''/in'' ''/c.jpg'' ''/out'' start = (Returns (Some t1), w1)
     \<and> failed t1 = 0
     \<and> processFolder (demo_env [''a.mp3'', ''d.txt''] [] None) (demo_logger ''info'')
        ''/in'' ''/c.jpg'' ''/out'' w1 = (Returns (Some t2), w2)
     \<and> totalDiscovered t2 = totalDiscovered t1
     \<and> succeeded t2 = 0 \<and> failed t2 = 0 \<and> skipped t2 = totalDiscovered t2
     \<and> count_ev is_spawn w2 = count_ev is_spawn w1"
proof -
  define E where "E = demo_env [''a.mp3'', ''d.txt''] [] None"
  have conv: "\<forall>i out ps. set ps \<subseteq> set (snd (spawn_res E ''ffmpeg'' (ffmpegArgs i ''/c.jpg'' out) ps))
       \<and> (child_succeeded (fst (spawn_res E ''ffmpeg'' (ffmpegArgs i ''/c.jpg'' out) ps))
            \<longrightarrow> out \<in> set (snd (spawn_res E ''ffmpeg'' (ffmpegArgs i ''/c.jpg'' out) ps)))"
    unfolding E_def by (auto simp: demo_spawn_good)
  have rd: "readdir_res E ''/in'' = Inr [''a.mp3'', ''d.txt'']"
    and ed: "ensureDir_err E ''/out'' = None"
    by (simp_all add: E_def demo_env_def)
  have cs: "candidates ''/in'' [''a.mp3'', ''d.txt''] = [''/in/a.mp3'']"
    by (simp add: candidates_def is_mp3_examples demo_paths)
  have ne: "filter is_mp3 [''a.mp3'', ''d.txt''] \<noteq> []" by (simp add: is_mp3_examples)
  have own: "\<forall>i\<in>set (candidates ''/in'' [''a.mp3'', ''d.txt'']). \<forall>ps.
        set (snd (spawn_res E ''ffmpeg'' (ffmpegArgs i ''/c.jpg'' (destination ''/out'' i)) ps))
          \<subseteq> (if (\<lambda>_. True) i then insert (destination ''/out'' i) (set ps) else set ps)"
    unfolding cs E_def by (auto simp: demo_paths demo_spawn_good)
  have out: "\<forall>i\<in>set (candidates ''/in'' [''a.mp3'', ''d.txt'']). \<forall>ps.
        (child_succeeded (fst (spawn_res E ''ffmpeg'' (ffmpegArgs i ''/c.jpg'' (destination ''/out'' i)) ps)) \<longleftrightarrow> (\<lambda>_. True) i)
        \<and> (child_failed (fst (spawn_res E ''ffmpeg'' (ffmpegArgs i ''/c.jpg'' (destination ''/out'' i)) ps)) \<longleftrightarrow> \<not> (\<lambda>_. True) i)"
    unfolding cs E_def by (simp add: demo_paths demo_spawn_good demo_children)
  have dist: "distinct (map (destination ''/out'') (candidates ''/in'' [''a.mp3'', ''d.txt'']))"
    unfolding cs by simp
  have fresh: "\<forall>i\<in>set (candidates ''/in'' [''a.mp3'', ''d.txt'']). destination ''/out'' i \<notin> set (paths start)
                  \<and> destination ''/out'' i \<noteq> logFile (demo_logger ''info'') \<and> destination ''/out'' i \<noteq> ''/out''"
    unfolding cs by (simp add: demo_paths demo_logger_def start_def)
  obtain w1 where r1: "processFolder E (demo_logger ''info'') ''/in'' ''/c.jpg'' ''/out'' start
            = (Returns (Some (tally_of (length (filter is_mp3 [''a.mp3'', ''d.txt'']))
                 (int (length (filter (\<lambda>_. True) (candidates ''/in'' [''a.mp3'', ''d.txt'']))))
                 (int (length (filter (\<lambda>i. \<not> (\<lambda>_. True) i) (candidates ''/in'' [''a.mp3'', ''d.txt''])))))), w1)"
    using processFolder_fresh [OF rd ne ed own out dist fresh] by blast
  have nf: "failed (tally_of (length (filter is_mp3 [''a.mp3'', ''d.txt'']))
                 (int (length (filter (\<lambda>_. True) (candidates ''/in'' [''a.mp3'', ''d.txt'']))))
                 (int (length (filter (\<lambda>i. \<not> (\<lambda>_. True) i) (candidates ''/in'' [''a.mp3'', ''d.txt'']))))) = 0"
    by (simp add: tally_of_def)
  show ?thesis
    using second_run_skips_everything [OF conv r1 nf] r1 nf unfolding E_def by blast
qed

end
